theory Spec2Isabelle
  imports Main
begin

section \<open>Values of the DOM and of the caller\<close>

text \<open>
  The development embeds \<^verbatim>\<open>src/drag-controller.ts\<close>: the class \<^verbatim>\<open>DragController\<close>, the
  directive class \<^verbatim>\<open>DraggableDirective\<close> and the two copies of the press handler
  \<^verbatim>\<open>#onMouseDown\<close> with the closures \<^verbatim>\<open>onMouseMove\<close> and \<^verbatim>\<open>onMouseUp\<close> they create.

  Objects are addressed by natural numbers (object identity is address equality).
  Caller-supplied \<^verbatim>\<open>onMove\<close>/\<^verbatim>\<open>onEnd\<close> functions are opaque: they are identified by a
  name and every invocation is recorded, with its arguments, in the list \<open>calls\<close> of the
  world. \<^verbatim>\<open>onStart\<close> decides the rest of the press handler through its return value, so
  it is a function of its two arguments; the result \<open>None\<close> is \<^verbatim>\<open>undefined\<close> (a
  \<^verbatim>\<open>void\<close> return). Callbacks are assumed not to dispatch events, not to touch listeners
  and not to assign \<^verbatim>\<open>data\<close> themselves. Coordinates are whole pixels (\<open>int\<close>).
  A payload of type \<^verbatim>\<open>T\<close> is a \<open>'d option\<close>, \<open>None\<close> being \<^verbatim>\<open>undefined\<close>
  (the slot \<^verbatim>\<open>data!: T\<close> before anybody assigns it).
\<close>

type_synonym node = nat
type_synonym ref = nat
type_synonym closure = nat
type_synonym callback = nat

record MouseEvent =
  clientX :: int
  clientY :: int
  defaultPrevented :: bool

definition preventDefault :: "MouseEvent \<Rightarrow> MouseEvent" where
  "preventDefault e = e\<lparr>defaultPrevented := True\<rparr>"

text \<open>\<^verbatim>\<open>interface DraggableStartResult<T>\<close>: every field is optional.\<close>

record DraggableStartResult =
  startX :: "int option"
  startY :: "int option"
  res_onMove :: "callback option"
  res_onEnd :: "callback option"

text \<open>\<^verbatim>\<open>interface DraggableOptions<T>\<close>: every field is optional.\<close>

record 'd DraggableOptions =
  onStart :: "(MouseEvent \<Rightarrow> 'd option \<Rightarrow> DraggableStartResult option) option"
  onMove :: "callback option"
  onEnd :: "callback option"
  target :: "node option"

text \<open>The layout read-out of the host element (\<^verbatim>\<open>this._host.offsetLeft\<close>, \<^verbatim>\<open>offsetTop\<close>).\<close>

record ReactiveElement =
  offsetLeft :: int
  offsetTop :: int

text \<open>The fields \<^verbatim>\<open>_host\<close>, \<^verbatim>\<open>_options\<close> and \<^verbatim>\<open>data\<close> of a \<^verbatim>\<open>DragController\<close>.\<close>

record 'd DragController =
  c_host :: ReactiveElement
  c_options :: "'d DraggableOptions"
  c_data :: "'d option"

text \<open>The fields \<^verbatim>\<open>controller\<close>, \<^verbatim>\<open>element\<close> and \<^verbatim>\<open>data\<close> of a \<^verbatim>\<open>DraggableDirective\<close>.\<close>

record 'd DraggableDirective =
  d_controller :: "ref option"
  d_element :: "node option"
  d_data :: "'d option"

text \<open>
  The variables of one call of \<^verbatim>\<open>#onMouseDown\<close>, shared by the body of the handler and by
  the two closures it creates: \<^verbatim>\<open>this\<close>, \<^verbatim>\<open>startX\<close>, \<^verbatim>\<open>startY\<close>, \<^verbatim>\<open>clientX\<close>, \<^verbatim>\<open>clientY\<close>,
  \<^verbatim>\<open>onMove\<close>, \<^verbatim>\<open>onEnd\<close>. The body assigns some of them after the closures have been
  registered, so the variables live in a store indexed by the closure.
\<close>

datatype self = Controller ref | Directive ref

record scope =
  var_this :: self
  var_startX :: int
  var_startY :: int
  var_clientX :: int
  var_clientY :: int
  var_onMove :: "callback option"
  var_onEnd :: "callback option"

text \<open>The recorded invocations of the caller's callbacks, with their arguments.\<close>

datatype 'd call =
    OnStart MouseEvent "'d option"
  | OnMove callback int int MouseEvent "'d option"
  | OnEnd callback MouseEvent "'d option"

section \<open>Event targets and listeners\<close>

datatype EventTarget = Window | Document | Element node

datatype EventType = mousedown | mousemove | mouseup | contextmenu

text \<open>
  The four kinds of function this file registers: the field \<^verbatim>\<open>#onMouseDown\<close> of a
  controller, the field \<^verbatim>\<open>#onMouseDown\<close> of a directive (one function object per
  instance), and the closures \<^verbatim>\<open>onMouseMove\<close> and \<^verbatim>\<open>onMouseUp\<close> of one press.
\<close>

datatype listener =
    ControllerPress ref
  | DirectivePress ref
  | SessionMove closure
  | SessionUp closure

record 'd world =
  listeners :: "EventTarget \<Rightarrow> EventType \<Rightarrow> listener list"
  controllers :: "ref \<Rightarrow> 'd DragController"
  directives :: "ref \<Rightarrow> 'd DraggableDirective"
  closures :: "closure \<Rightarrow> scope"
  next_closure :: closure
  calls :: "'d call list"

text \<open>
  \<^verbatim>\<open>addEventListener\<close> appends unless the same function is already registered for the
  type on the target; \<^verbatim>\<open>removeEventListener\<close> removes it when it is there.
\<close>

definition addEventListener ::
  "EventTarget \<Rightarrow> EventType \<Rightarrow> listener \<Rightarrow> 'd world \<Rightarrow> 'd world" where
  "addEventListener t ty l w =
     (if l \<in> set (listeners w t ty) then w
      else w\<lparr>listeners := (listeners w)(t := (listeners w t)(ty := listeners w t ty @ [l]))\<rparr>)"

definition removeEventListener ::
  "EventTarget \<Rightarrow> EventType \<Rightarrow> listener \<Rightarrow> 'd world \<Rightarrow> 'd world" where
  "removeEventListener t ty l w =
     w\<lparr>listeners := (listeners w)(t := (listeners w t)(ty := remove1 l (listeners w t ty)))\<rparr>"

section \<open>The closures of a drag session\<close>

definition this_data :: "'d world \<Rightarrow> self \<Rightarrow> 'd option" where
  "this_data w i = (case i of Controller c \<Rightarrow> c_data (controllers w c)
                            | Directive d \<Rightarrow> d_data (directives w d))"

text \<open>
  \<^verbatim>\<open>onMouseMove\<close> (lines 53-62 and 138-147): the two copies differ in nothing but the
  object \<^verbatim>\<open>this\<close>, which is a variable of the scope here.
\<close>

definition onMouseMove :: "closure \<Rightarrow> MouseEvent \<Rightarrow> 'd world \<Rightarrow> MouseEvent \<times> 'd world" where
  "onMouseMove k e0 w =
     (let e = preventDefault e0;
          v = closures w k;
          deltaX = clientX e - var_clientX v + var_startX v;
          deltaY = clientY e - var_clientY v + var_startY v
      in (e, case var_onMove v of
               None \<Rightarrow> w
             | Some f \<Rightarrow> w\<lparr>calls := calls w @ [OnMove f deltaX deltaY e (this_data w (var_this v))]\<rparr>))"

text \<open>\<^verbatim>\<open>onMouseUp\<close> (lines 64-70 and 149-155).\<close>

definition onMouseUp :: "closure \<Rightarrow> MouseEvent \<Rightarrow> 'd world \<Rightarrow> MouseEvent \<times> 'd world" where
  "onMouseUp k e0 w =
     (let e = preventDefault e0;
          v = closures w k;
          w1 = removeEventListener Window mousemove (SessionMove k) w;
          w2 = removeEventListener Window mouseup (SessionUp k) w1;
          w3 = removeEventListener Document contextmenu (SessionUp k) w2
      in (e, case var_onEnd v of
               None \<Rightarrow> w3
             | Some f \<Rightarrow> w3\<lparr>calls := calls w3 @ [OnEnd f e (this_data w3 (var_this v))]\<rparr>))"

section \<open>The press handlers\<close>

text \<open>\<^verbatim>\<open>a ?? b\<close>: \<open>b\<close> when \<open>a\<close> is \<^verbatim>\<open>undefined\<close>.\<close>

definition nullish :: "'a option \<Rightarrow> 'a option \<Rightarrow> 'a option" where
  "nullish a b = (case a of None \<Rightarrow> b | Some x \<Rightarrow> Some x)"

text \<open>\<^verbatim>\<open>a ?? b\<close> where \<open>b\<close> is a plain value, as in \<^verbatim>\<open>config?.startX ?? 0\<close>.\<close>

definition nullish_or :: "'a option \<Rightarrow> 'a \<Rightarrow> 'a" where
  "nullish_or a b = (case a of None \<Rightarrow> b | Some x \<Rightarrow> x)"

text \<open>\<^verbatim>\<open>config?.field\<close>: \<^verbatim>\<open>undefined\<close> when \<open>config\<close> is.\<close>

definition optional_chain :: "'r option \<Rightarrow> ('r \<Rightarrow> 'a option) \<Rightarrow> 'a option" where
  "optional_chain config field = (case config of None \<Rightarrow> None | Some r \<Rightarrow> field r)"

text \<open>
  Lines 72-83 and 157-166, which the two handlers share word for word: register the
  closures \<open>k\<close>, call \<^verbatim>\<open>onStart?.(e, this.data)\<close>, then assign \<^verbatim>\<open>onMove\<close>, \<^verbatim>\<open>onEnd\<close>,
  \<^verbatim>\<open>startX\<close> and \<^verbatim>\<open>startY\<close>.
\<close>

definition start_session ::
  "closure \<Rightarrow> (MouseEvent \<Rightarrow> 'd option \<Rightarrow> DraggableStartResult option) option \<Rightarrow>
   MouseEvent \<Rightarrow> 'd world \<Rightarrow> 'd world" where
  "start_session k onStart_opt e w =
     (let w1 = addEventListener Window mousemove (SessionMove k) w;
          w2 = addEventListener Window mouseup (SessionUp k) w1;
          w3 = addEventListener Document contextmenu (SessionUp k) w2;
          d = this_data w3 (var_this (closures w3 k));
          (config, w4) = (case onStart_opt of
                            None \<Rightarrow> (None, w3)
                          | Some f \<Rightarrow> (f e d, w3\<lparr>calls := calls w3 @ [OnStart e d]\<rparr>));
          v = closures w4 k;
          v1 = v\<lparr>var_onMove := nullish (var_onMove v) (optional_chain config res_onMove)\<rparr>;
          v2 = v1\<lparr>var_onEnd := nullish (var_onEnd v1) (optional_chain config res_onEnd)\<rparr>;
          v3 = v2\<lparr>var_startX := nullish_or (optional_chain config startX) 0\<rparr>;
          v4 = v3\<lparr>var_startY := nullish_or (optional_chain config startY) 0\<rparr>
      in w4\<lparr>closures := (closures w4)(k := v4)\<rparr>)"

text \<open>
  \<^verbatim>\<open>DragController.#onMouseDown\<close> (lines 45-84). Lines 46-51 initialise the variables:
  \<^verbatim>\<open>startX\<close> and \<^verbatim>\<open>startY\<close> from the host's offset, the callbacks from \<^verbatim>\<open>this._options\<close>.
\<close>

definition DragController_onMouseDown :: "ref \<Rightarrow> MouseEvent \<Rightarrow> 'd world \<Rightarrow> 'd world" where
  "DragController_onMouseDown c e w =
     (let this = controllers w c;
          k = next_closure w;
          v = \<lparr>var_this = Controller c,
               var_startX = offsetLeft (c_host this),
               var_startY = offsetTop (c_host this),
               var_clientX = clientX e,
               var_clientY = clientY e,
               var_onMove = onMove (c_options this),
               var_onEnd = onEnd (c_options this)\<rparr>;
          w0 = w\<lparr>closures := (closures w)(k := v), next_closure := Suc k\<rparr>
      in start_session k (onStart (c_options this)) e w0)"

text \<open>
  \<^verbatim>\<open>DraggableDirective.#onMouseDown\<close> (lines 129-167). \<^verbatim>\<open>let startX: number\<close> and
  \<^verbatim>\<open>let startY: number\<close> have no initialiser: the two variables keep whatever the fresh
  scope holds until lines 165-166 assign them. Reading \<^verbatim>\<open>this.controller._options\<close> of a
  directive that has no controller throws before anything has been registered.
\<close>

definition DraggableDirective_onMouseDown :: "ref \<Rightarrow> MouseEvent \<Rightarrow> 'd world \<Rightarrow> 'd world" where
  "DraggableDirective_onMouseDown d e w =
     (case d_controller (directives w d) of
        None \<Rightarrow> w
      | Some c \<Rightarrow>
          (let opts = c_options (controllers w c);
               k = next_closure w;
               v = (closures w k)\<lparr>var_this := Directive d,
                                  var_clientX := clientX e,
                                  var_clientY := clientY e,
                                  var_onMove := onMove opts,
                                  var_onEnd := onEnd opts\<rparr>;
               w0 = w\<lparr>closures := (closures w)(k := v), next_closure := Suc k\<rparr>
           in start_session k (onStart opts) e w0))"

section \<open>Construction and re-evaluation\<close>

text \<open>
  \<^verbatim>\<open>new DragController(host, options)\<close> (lines 37-43), allocated at address \<open>c\<close>. The
  constructor does not assign \<^verbatim>\<open>data\<close>. \<^verbatim>\<open>addController\<close> belongs to the host and has no
  effect on anything modelled here (\<^verbatim>\<open>hostConnected\<close> is empty).
\<close>

definition DragController_new ::
  "ref \<Rightarrow> ReactiveElement \<Rightarrow> 'd DraggableOptions \<Rightarrow> 'd world \<Rightarrow> 'd world" where
  "DragController_new c host options w =
     (let this = \<lparr>c_host = host, c_options = options, c_data = None\<rparr>;
          w1 = w\<lparr>controllers := (controllers w)(c := this)\<rparr>
      in case target options of
           None \<Rightarrow> w1
         | Some t \<Rightarrow> addEventListener (Element t) mousedown (ControllerPress c) w1)"

text \<open>\<^verbatim>\<open>handle(data)\<close> (lines 92-94): the arguments the directive will be updated with.\<close>

definition handle :: "ref \<Rightarrow> 'd option \<Rightarrow> ref \<times> 'd option" where
  "handle c data = (c, data)"

text \<open>
  \<^verbatim>\<open>PartType\<close> is the enumeration of \<^verbatim>\<open>lit/directive.js\<close>; \<^verbatim>\<open>PartInfo\<close> carries the type of
  the attachment point.
\<close>

datatype PartType = ATTRIBUTE | CHILD | PROPERTY | BOOLEAN_ATTRIBUTE | EVENT | ELEMENT

record PartInfo =
  part_type :: PartType

datatype error = Error string

text \<open>The constructor of \<^verbatim>\<open>DraggableDirective\<close> (lines 102-107).\<close>

definition DraggableDirective_new :: "PartInfo \<Rightarrow> error + 'd DraggableDirective" where
  "DraggableDirective_new partInfo =
     (if part_type partInfo \<noteq> ELEMENT
      then Inl (Error ''handle() must be used in an element binding'')
      else Inr \<lparr>d_controller = None, d_element = None, d_data = None\<rparr>)"

text \<open>
  \<^verbatim>\<open>update(part, [controller, data])\<close> (lines 114-127) of the directive at address \<open>d\<close>;
  \<open>part_element\<close> is \<^verbatim>\<open>part.element\<close>.
\<close>

definition update :: "ref \<Rightarrow> node \<Rightarrow> ref \<times> 'd option \<Rightarrow> 'd world \<Rightarrow> 'd world" where
  "update d part_element params w =
     (let (controller, data) = params;
          this0 = directives w d;
          this1 = this0\<lparr>d_data := data\<rparr>;
          this2 = this1\<lparr>d_controller := nullish (d_controller this1) (Some controller)\<rparr>
      in if Some part_element \<noteq> d_element this2
         then
           (let w1 = (case d_element this2 of
                        None \<Rightarrow> w
                      | Some old \<Rightarrow> removeEventListener (Element old) mousedown (DirectivePress d) w);
                this3 = this2\<lparr>d_element := Some part_element\<rparr>;
                w2 = addEventListener (Element part_element) mousedown (DirectivePress d) w1
            in w2\<lparr>directives := (directives w2)(d := this3)\<rparr>)
         else w\<lparr>directives := (directives w)(d := this2)\<rparr>)"

section \<open>Dispatch\<close>

text \<open>
  The browser calls the listeners registered for the type on the target, in the order
  of registration, over a copy of the list taken when the dispatch starts; a listener
  removed meanwhile is skipped. All listeners see the same event object.
\<close>

fun invoke :: "listener \<Rightarrow> MouseEvent \<Rightarrow> 'd world \<Rightarrow> MouseEvent \<times> 'd world" where
  "invoke (ControllerPress c) e w = (e, DragController_onMouseDown c e w)"
| "invoke (DirectivePress d) e w = (e, DraggableDirective_onMouseDown d e w)"
| "invoke (SessionMove k) e w = onMouseMove k e w"
| "invoke (SessionUp k) e w = onMouseUp k e w"

fun run_listeners ::
  "EventTarget \<Rightarrow> EventType \<Rightarrow> listener list \<Rightarrow> MouseEvent \<Rightarrow> 'd world \<Rightarrow> MouseEvent \<times> 'd world" where
  "run_listeners t ty [] e w = (e, w)"
| "run_listeners t ty (l # ls) e w =
     (if l \<in> set (listeners w t ty)
      then (case invoke l e w of (e', w') \<Rightarrow> run_listeners t ty ls e' w')
      else run_listeners t ty ls e w)"

definition dispatchEvent :: "EventTarget \<Rightarrow> EventType \<Rightarrow> MouseEvent \<Rightarrow> 'd world \<Rightarrow> 'd world" where
  "dispatchEvent t ty e w = snd (run_listeners t ty (listeners w t ty) e w)"

text \<open>
  What can happen to a page: a press reaches an element, a movement or a release
  reaches the window, a context-menu event reaches the document, the template is
  rendered again (the directive at \<open>d\<close> is updated), somebody assigns the \<^verbatim>\<open>data\<close> slot of
  a controller.
\<close>

datatype 'd input =
    Press node MouseEvent
  | Move MouseEvent
  | Release MouseEvent
  | ContextMenu MouseEvent
  | Render ref node ref "'d option"
  | SetData ref "'d option"

fun step :: "'d input \<Rightarrow> 'd world \<Rightarrow> 'd world" where
  "step (Press n e) w = dispatchEvent (Element n) mousedown e w"
| "step (Move e) w = dispatchEvent Window mousemove e w"
| "step (Release e) w = dispatchEvent Window mouseup e w"
| "step (ContextMenu e) w = dispatchEvent Document contextmenu e w"
| "step (Render d n c data) w = update d n (handle c data) w"
| "step (SetData c data) w =
     w\<lparr>controllers := (controllers w)(c := (controllers w c)\<lparr>c_data := data\<rparr>)\<rparr>"

fun run :: "'d input list \<Rightarrow> 'd world \<Rightarrow> 'd world" where
  "run [] w = w"
| "run (i # is) w = run is (step i w)"

section \<open>Notions used by the statements\<close>

text \<open>
  The object a press listener belongs to, and the options it reads: a controller reads
  its own \<^verbatim>\<open>_options\<close>, a directive those of its controller (line 136).
\<close>

fun press_this :: "listener \<Rightarrow> self option" where
  "press_this (ControllerPress c) = Some (Controller c)"
| "press_this (DirectivePress d) = Some (Directive d)"
| "press_this _ = None"

definition press_options :: "'d world \<Rightarrow> listener \<Rightarrow> 'd DraggableOptions option" where
  "press_options w l =
     (case l of
        ControllerPress c \<Rightarrow> Some (c_options (controllers w c))
      | DirectivePress d \<Rightarrow>
          (case d_controller (directives w d) of
             None \<Rightarrow> None
           | Some c \<Rightarrow> Some (c_options (controllers w c)))
      | _ \<Rightarrow> None)"

text \<open>The value of \<^verbatim>\<open>onStart?.(e, this.data)\<close>.\<close>

definition start_config ::
  "'d DraggableOptions \<Rightarrow> MouseEvent \<Rightarrow> 'd option \<Rightarrow> DraggableStartResult option" where
  "start_config opts e d = (case onStart opts of None \<Rightarrow> None | Some f \<Rightarrow> f e d)"

text \<open>
  The active sessions are the closures whose \<^verbatim>\<open>onMouseMove\<close> is registered on the window.
  The three global listener lists form a matched set when they hold the closures of the
  same sessions, in the same order, once each, all of them allocated already. No session
  is active in an idle world.
\<close>

definition sessions :: "'d world \<Rightarrow> closure list" where
  "sessions w =
     concat (map (\<lambda>l. case l of SessionMove k \<Rightarrow> [k] | _ \<Rightarrow> []) (listeners w Window mousemove))"

definition matched :: "'d world \<Rightarrow> bool" where
  "matched w \<longleftrightarrow>
     listeners w Window mousemove = map SessionMove (sessions w) \<and>
     listeners w Window mouseup = map SessionUp (sessions w) \<and>
     listeners w Document contextmenu = map SessionUp (sessions w) \<and>
     distinct (sessions w) \<and>
     (\<forall>k \<in> set (sessions w). k < next_closure w)"

definition idle :: "'d world \<Rightarrow> bool" where
  "idle w \<longleftrightarrow>
     listeners w Window mousemove = [] \<and> listeners w Window mouseup = [] \<and>
     listeners w Document contextmenu = []"

definition global :: "EventTarget \<Rightarrow> EventType \<Rightarrow> bool" where
  "global t ty \<longleftrightarrow>
     (t = Window \<and> (ty = mousemove \<or> ty = mouseup)) \<or> (t = Document \<and> ty = contextmenu)"

text \<open>
  What the closures of session \<open>k\<close> pass to the caller when they run in world \<open>w\<close> on
  event \<open>e\<close>: \<^verbatim>\<open>onMove?.(deltaX, deltaY, e, this.data)\<close> and \<^verbatim>\<open>onEnd?.(e, this.data)\<close>.
\<close>

definition onMove_call :: "'d world \<Rightarrow> MouseEvent \<Rightarrow> closure \<Rightarrow> 'd call list" where
  "onMove_call w e k =
     (case var_onMove (closures w k) of
        None \<Rightarrow> []
      | Some f \<Rightarrow>
          [OnMove f (clientX e - var_clientX (closures w k) + var_startX (closures w k))
             (clientY e - var_clientY (closures w k) + var_startY (closures w k))
             (preventDefault e) (this_data w (var_this (closures w k)))])"

definition onEnd_call :: "'d world \<Rightarrow> MouseEvent \<Rightarrow> closure \<Rightarrow> 'd call list" where
  "onEnd_call w e k =
     (case var_onEnd (closures w k) of
        None \<Rightarrow> []
      | Some g \<Rightarrow> [OnEnd g (preventDefault e) (this_data w (var_this (closures w k)))])"

text \<open>The world once every active session has run its \<^verbatim>\<open>onMouseUp\<close> on event \<open>e\<close>.\<close>

definition ended :: "MouseEvent \<Rightarrow> 'd world \<Rightarrow> 'd world" where
  "ended e w =
     w\<lparr>listeners := (\<lambda>t ty. if global t ty then [] else listeners w t ty),
       calls := calls w @ concat (map (onEnd_call w e) (sessions w))\<rparr>"

section \<open>Example pages\<close>

text \<open>
  A page on which no script has run yet, and mouse events at a position. The examples
  follow the demo: an element with a controller of its own (controller 0, host at offset
  (50, 50), press listener on node 7), and a handle bound by the directive (directive 0
  of controller 0, on node 8, with a payload).
\<close>

definition page :: "'d world" where
  "page =
     \<lparr>listeners = (\<lambda>t ty. []),
      controllers = (\<lambda>c. \<lparr>c_host = \<lparr>offsetLeft = 0, offsetTop = 0\<rparr>,
                          c_options = \<lparr>onStart = None, onMove = None, onEnd = None, target = None\<rparr>,
                          c_data = None\<rparr>),
      directives = (\<lambda>d. \<lparr>d_controller = None, d_element = None, d_data = None\<rparr>),
      closures = (\<lambda>k. \<lparr>var_this = Controller 0, var_startX = 0, var_startY = 0, var_clientX = 0,
                        var_clientY = 0, var_onMove = None, var_onEnd = None\<rparr>),
      next_closure = 0,
      calls = []\<rparr>"

definition mouse :: "int \<Rightarrow> int \<Rightarrow> MouseEvent" where
  "mouse x y = \<lparr>clientX = x, clientY = y, defaultPrevented = False\<rparr>"

definition prevented :: "int \<Rightarrow> int \<Rightarrow> MouseEvent" where
  "prevented x y = \<lparr>clientX = x, clientY = y, defaultPrevented = True\<rparr>"

text \<open>An \<^verbatim>\<open>onStart\<close> that returns a full result, and one that returns nothing.\<close>

definition start_at_50 :: "MouseEvent \<Rightarrow> string option \<Rightarrow> DraggableStartResult option" where
  "start_at_50 e d =
     Some \<lparr>startX = Some 50, startY = Some 50, res_onMove = Some 2, res_onEnd = Some 4\<rparr>"

definition start_void :: "MouseEvent \<Rightarrow> string option \<Rightarrow> DraggableStartResult option" where
  "start_void e d = None"

text \<open>
  Callbacks in the options only; in the result of \<^verbatim>\<open>onStart\<close> only; in both; and
  \<^verbatim>\<open>onMove\<close> in both with \<^verbatim>\<open>onEnd\<close> in the result only.
\<close>

definition static_options :: "string DraggableOptions" where
  "static_options = \<lparr>onStart = None, onMove = Some 1, onEnd = Some 3, target = Some 7\<rparr>"

definition void_options :: "string DraggableOptions" where
  "void_options = \<lparr>onStart = Some start_void, onMove = Some 1, onEnd = Some 3, target = Some 7\<rparr>"

definition returned_options :: "string DraggableOptions" where
  "returned_options = \<lparr>onStart = Some start_at_50, onMove = None, onEnd = None, target = Some 7\<rparr>"

definition both_options :: "string DraggableOptions" where
  "both_options = \<lparr>onStart = Some start_at_50, onMove = Some 1, onEnd = Some 3, target = Some 7\<rparr>"

definition move_only_options :: "string DraggableOptions" where
  "move_only_options = \<lparr>onStart = Some start_at_50, onMove = Some 1, onEnd = None, target = Some 7\<rparr>"

definition self_drag :: "string DraggableOptions \<Rightarrow> string world" where
  "self_drag opts = DragController_new 0 \<lparr>offsetLeft = 50, offsetTop = 50\<rparr> opts page"

definition with_handle :: "string DraggableOptions \<Rightarrow> string world" where
  "with_handle opts =
     update 0 8 (handle 0 (Some ''first''))
       (DragController_new 0 \<lparr>offsetLeft = 50, offsetTop = 50\<rparr> (opts\<lparr>target := None\<rparr>) page)"

section \<open>Registering and removing listeners\<close>

lemma addEventListener_fields [simp]:
  "controllers (addEventListener t ty l w) = controllers w"
  "directives (addEventListener t ty l w) = directives w"
  "closures (addEventListener t ty l w) = closures w"
  "next_closure (addEventListener t ty l w) = next_closure w"
  "calls (addEventListener t ty l w) = calls w"
  by (simp_all add: addEventListener_def)

lemma addEventListener_listeners:
  "listeners (addEventListener t ty l w) t' ty' =
     (if t' = t \<and> ty' = ty \<and> l \<notin> set (listeners w t ty) then listeners w t ty @ [l]
      else listeners w t' ty')"
  by (simp add: addEventListener_def)

lemma removeEventListener_fields [simp]:
  "controllers (removeEventListener t ty l w) = controllers w"
  "directives (removeEventListener t ty l w) = directives w"
  "closures (removeEventListener t ty l w) = closures w"
  "next_closure (removeEventListener t ty l w) = next_closure w"
  "calls (removeEventListener t ty l w) = calls w"
  by (simp_all add: removeEventListener_def)

lemma removeEventListener_listeners:
  "listeners (removeEventListener t ty l w) t' ty' =
     (if t' = t \<and> ty' = ty then remove1 l (listeners w t ty) else listeners w t' ty')"
  by (simp add: removeEventListener_def)

lemma this_data_cong:
  "controllers w' = controllers w \<Longrightarrow> directives w' = directives w \<Longrightarrow> this_data w' = this_data w"
  by (rule ext) (simp add: this_data_def split: self.splits)

lemma this_data_addEventListener [simp]:
  "this_data (addEventListener t ty l w) = this_data w"
  by (rule this_data_cong) simp_all

lemma this_data_removeEventListener [simp]:
  "this_data (removeEventListener t ty l w) = this_data w"
  by (rule this_data_cong) simp_all

section \<open>What a press does\<close>

lemma start_session_fields [simp]:
  "controllers (start_session k os e w) = controllers w"
  "directives (start_session k os e w) = directives w"
  "next_closure (start_session k os e w) = next_closure w"
  by (cases os; simp add: start_session_def Let_def)+

lemma start_session_calls:
  "calls (start_session k os e w) =
     calls w @ (case os of None \<Rightarrow> [] | Some f \<Rightarrow> [OnStart e (this_data w (var_this (closures w k)))])"
  by (cases os; simp add: start_session_def Let_def)

lemma start_session_listeners:
  "listeners (start_session k os e w) t ty =
     (if t = Window \<and> ty = mousemove \<and> SessionMove k \<notin> set (listeners w Window mousemove)
      then listeners w Window mousemove @ [SessionMove k]
      else if t = Window \<and> ty = mouseup \<and> SessionUp k \<notin> set (listeners w Window mouseup)
      then listeners w Window mouseup @ [SessionUp k]
      else if t = Document \<and> ty = contextmenu \<and> SessionUp k \<notin> set (listeners w Document contextmenu)
      then listeners w Document contextmenu @ [SessionUp k]
      else listeners w t ty)"
  by (cases os; simp add: start_session_def Let_def addEventListener_listeners)

lemma start_session_closures:
  "closures (start_session k os e w) =
     (closures w)(k :=
       (let v = closures w k;
            config = (case os of None \<Rightarrow> None | Some f \<Rightarrow> f e (this_data w (var_this v)))
        in v\<lparr>var_onMove := nullish (var_onMove v) (optional_chain config res_onMove),
             var_onEnd := nullish (var_onEnd v) (optional_chain config res_onEnd),
             var_startX := nullish_or (optional_chain config startX) 0,
             var_startY := nullish_or (optional_chain config startY) 0\<rparr>))"
  by (cases os; simp add: start_session_def Let_def)

lemma this_data_closures_update [simp]:
  "this_data (w\<lparr>closures := cs, next_closure := n\<rparr>) = this_data w"
  by (rule this_data_cong) simp_all

lemma press_cases:
  assumes "press_options w l = Some opts" and "press_this l = Some this"
  obtains (controller) c where "l = ControllerPress c" and "this = Controller c"
      and "opts = c_options (controllers w c)"
  | (directive) d c where "l = DirectivePress d" and "this = Directive d"
      and "d_controller (directives w d) = Some c" and "opts = c_options (controllers w c)"
  using assms by (cases l) (auto simp: press_options_def split: option.splits)

lemma scope_all_updated:
  "v\<lparr>var_this := a, var_clientX := b, var_clientY := c, var_onMove := f, var_onEnd := g,
      var_startX := x, var_startY := y\<rparr>
   = \<lparr>var_this = a, var_startX = x, var_startY = y, var_clientX = b, var_clientY = c,
      var_onMove = f, var_onEnd = g\<rparr>"
  by (cases v) simp

lemma press_fields:
  assumes "press_options w l = Some opts" and "press_this l = Some this"
  shows "fst (invoke l p w) = p"
    and "controllers (snd (invoke l p w)) = controllers w"
    and "directives (snd (invoke l p w)) = directives w"
    and "next_closure (snd (invoke l p w)) = Suc (next_closure w)"
  by (cases rule: press_cases[OF assms];
      simp add: DragController_onMouseDown_def DraggableDirective_onMouseDown_def Let_def)+

lemma press_calls:
  assumes "press_options w l = Some opts" and "press_this l = Some this"
  shows "calls (snd (invoke l p w)) =
           calls w @ (case onStart opts of None \<Rightarrow> [] | Some s \<Rightarrow> [OnStart p (this_data w this)])"
  by (cases rule: press_cases[OF assms];
      simp add: DragController_onMouseDown_def DraggableDirective_onMouseDown_def Let_def
        start_session_calls cong: option.case_cong)

lemma press_listeners:
  assumes "press_options w l = Some opts" and "press_this l = Some this"
  shows "listeners (snd (invoke l p w)) t ty =
     (if t = Window \<and> ty = mousemove \<and> SessionMove (next_closure w) \<notin> set (listeners w Window mousemove)
      then listeners w Window mousemove @ [SessionMove (next_closure w)]
      else if t = Window \<and> ty = mouseup \<and> SessionUp (next_closure w) \<notin> set (listeners w Window mouseup)
      then listeners w Window mouseup @ [SessionUp (next_closure w)]
      else if t = Document \<and> ty = contextmenu \<and> SessionUp (next_closure w) \<notin> set (listeners w Document contextmenu)
      then listeners w Document contextmenu @ [SessionUp (next_closure w)]
      else listeners w t ty)"
  by (cases rule: press_cases[OF assms];
      simp add: DragController_onMouseDown_def DraggableDirective_onMouseDown_def Let_def
        start_session_listeners)

lemma press_scope:
  assumes "press_options w l = Some opts" and "press_this l = Some this"
  shows "closures (snd (invoke l p w)) =
     (closures w)(next_closure w :=
        (let config = start_config opts p (this_data w this)
         in \<lparr>var_this = this,
             var_startX = nullish_or (optional_chain config startX) 0,
             var_startY = nullish_or (optional_chain config startY) 0,
             var_clientX = clientX p,
             var_clientY = clientY p,
             var_onMove = nullish (onMove opts) (optional_chain config res_onMove),
             var_onEnd = nullish (onEnd opts) (optional_chain config res_onEnd)\<rparr>))"
  by (cases rule: press_cases[OF assms];
      simp add: DragController_onMouseDown_def DraggableDirective_onMouseDown_def Let_def
        start_session_closures start_config_def scope_all_updated cong: option.case_cong)

section \<open>The matched set of global listeners\<close>

lemma concat_sessions_map:
  "concat (map (\<lambda>l. case l of SessionMove k \<Rightarrow> [k] | _ \<Rightarrow> []) (map SessionMove ks)) = ks"
  by (induction ks) simp_all

lemma sessions_map:
  "listeners w Window mousemove = map SessionMove ks \<Longrightarrow> sessions w = ks"
  unfolding sessions_def by (simp only: concat_sessions_map)

lemma matchedI:
  assumes "listeners w Window mousemove = map SessionMove ks"
    and "listeners w Window mouseup = map SessionUp ks"
    and "listeners w Document contextmenu = map SessionUp ks"
    and "distinct ks" and "\<And>k. k \<in> set ks \<Longrightarrow> k < next_closure w"
  shows "matched w"
  using assms sessions_map[OF assms(1)] by (simp add: matched_def)

lemma remove1_map_SessionMove:
  "remove1 (SessionMove k) (map SessionMove ks) = map SessionMove (remove1 k ks)"
  by (induction ks) auto

lemma remove1_map_SessionUp:
  "remove1 (SessionUp k) (map SessionUp ks) = map SessionUp (remove1 k ks)"
  by (induction ks) auto

section \<open>What the closures of a session do\<close>

lemma this_data_calls_update [simp]: "this_data (w\<lparr>calls := cs\<rparr>) = this_data w"
  by (rule this_data_cong) simp_all

lemma onMouseMove_fields:
  "fst (onMouseMove k e w) = preventDefault e"
  "listeners (snd (onMouseMove k e w)) = listeners w"
  "controllers (snd (onMouseMove k e w)) = controllers w"
  "directives (snd (onMouseMove k e w)) = directives w"
  "closures (snd (onMouseMove k e w)) = closures w"
  "next_closure (snd (onMouseMove k e w)) = next_closure w"
  by (simp_all add: onMouseMove_def Let_def split: option.split)

lemma onMouseMove_calls:
  "calls (snd (onMouseMove k e w)) =
     calls w @ (case var_onMove (closures w k) of
                  None \<Rightarrow> []
                | Some f \<Rightarrow>
                    [OnMove f (clientX e - var_clientX (closures w k) + var_startX (closures w k))
                       (clientY e - var_clientY (closures w k) + var_startY (closures w k))
                       (preventDefault e) (this_data w (var_this (closures w k)))])"
  by (simp add: onMouseMove_def Let_def preventDefault_def split: option.split)

lemma onMouseUp_fields:
  "fst (onMouseUp k e w) = preventDefault e"
  "controllers (snd (onMouseUp k e w)) = controllers w"
  "directives (snd (onMouseUp k e w)) = directives w"
  "closures (snd (onMouseUp k e w)) = closures w"
  "next_closure (snd (onMouseUp k e w)) = next_closure w"
  by (simp_all add: onMouseUp_def Let_def split: option.split)

lemma onMouseUp_listeners:
  "listeners (snd (onMouseUp k e w)) t ty =
     (if t = Window \<and> ty = mousemove then remove1 (SessionMove k) (listeners w Window mousemove)
      else if t = Window \<and> ty = mouseup then remove1 (SessionUp k) (listeners w Window mouseup)
      else if t = Document \<and> ty = contextmenu then remove1 (SessionUp k) (listeners w Document contextmenu)
      else listeners w t ty)"
  by (simp add: onMouseUp_def Let_def removeEventListener_listeners split: option.split)

lemma onMouseUp_calls:
  "calls (snd (onMouseUp k e w)) =
     calls w @ (case var_onEnd (closures w k) of
                  None \<Rightarrow> []
                | Some g \<Rightarrow> [OnEnd g (preventDefault e) (this_data w (var_this (closures w k)))])"
  by (simp add: onMouseUp_def Let_def split: option.split)

section \<open>The variables of a session are written by its own press only\<close>

text \<open>
  A press writes the scope it allocates and no other; movement, release, rendering and
  assignments of \<^verbatim>\<open>data\<close> write no scope. So the variables of a session keep, in every
  later world, the values they had when its press handler returned.
\<close>

lemma invoke_frame:
  "next_closure w \<le> next_closure (snd (invoke l e w))
   \<and> (\<forall>k < next_closure w. closures (snd (invoke l e w)) k = closures w k)"
proof (cases l)
  case (ControllerPress c)
  have o: "press_options w l = Some (c_options (controllers w c))" and t: "press_this l = Some (Controller c)"
    by (simp_all add: ControllerPress press_options_def)
  show ?thesis by (simp add: press_fields[OF o t] press_scope[OF o t])
next
  case (DirectivePress d)
  show ?thesis
  proof (cases "d_controller (directives w d)")
    case None
    then show ?thesis by (simp add: DirectivePress DraggableDirective_onMouseDown_def)
  next
    case (Some c)
    have o: "press_options w l = Some (c_options (controllers w c))" and t: "press_this l = Some (Directive d)"
      by (simp_all add: DirectivePress press_options_def Some)
    show ?thesis by (simp add: press_fields[OF o t] press_scope[OF o t])
  qed
next
  case (SessionMove k)
  then show ?thesis by (simp add: onMouseMove_fields)
next
  case (SessionUp k)
  then show ?thesis by (simp add: onMouseUp_fields)
qed

lemma run_listeners_frame:
  "next_closure w \<le> next_closure (snd (run_listeners t ty ls e w))
   \<and> (\<forall>k < next_closure w. closures (snd (run_listeners t ty ls e w)) k = closures w k)"
proof (induction ls arbitrary: e w)
  case Nil
  show ?case by simp
next
  case (Cons l ls)
  show ?case
  proof (cases "l \<in> set (listeners w t ty)")
    case False
    then show ?thesis using Cons.IH[of w e] by simp
  next
    case True
    obtain e' w' where i: "invoke l e w = (e', w')" by (cases "invoke l e w")
    have f: "next_closure w \<le> next_closure w'" "\<forall>k < next_closure w. closures w' k = closures w k"
      using invoke_frame[of w l e] by (simp_all add: i)
    have r: "run_listeners t ty (l # ls) e w = run_listeners t ty ls e' w'"
      using True by (simp add: i)
    show ?thesis
      unfolding r using Cons.IH[of w' e'] f by auto
  qed
qed

lemma step_frame:
  "next_closure w \<le> next_closure (step i w)
   \<and> (\<forall>k < next_closure w. closures (step i w) k = closures w k)"
proof (cases i)
  case (Render d n c x)
  then show ?thesis
    by (simp add: update_def handle_def Let_def split: option.split)
qed (simp_all add: dispatchEvent_def run_listeners_frame)

lemma run_frame:
  "next_closure w \<le> next_closure (run is w)
   \<and> (\<forall>k < next_closure w. closures (run is w) k = closures w k)"
proof (induction "is" arbitrary: w)
  case Nil
  show ?case by simp
next
  case (Cons i "is")
  show ?case using Cons.IH[of "step i w"] step_frame[of w i] by auto
qed

section \<open>Every input keeps the global listeners matched\<close>

lemma matchedD:
  assumes "matched w"
  shows "listeners w Window mousemove = map SessionMove (sessions w)"
    and "listeners w Window mouseup = map SessionUp (sessions w)"
    and "listeners w Document contextmenu = map SessionUp (sessions w)"
    and "distinct (sessions w)"
    and "k \<in> set (sessions w) \<Longrightarrow> k < next_closure w"
  using assms by (simp_all add: matched_def)

lemma fresh_closure:
  assumes "matched w"
  shows "SessionMove (next_closure w) \<notin> set (listeners w Window mousemove)"
    and "SessionUp (next_closure w) \<notin> set (listeners w Window mouseup)"
    and "SessionUp (next_closure w) \<notin> set (listeners w Document contextmenu)"
    and "next_closure w \<notin> set (sessions w)"
proof -
  show n: "next_closure w \<notin> set (sessions w)"
    using matchedD(5)[OF assms, of "next_closure w"] by auto
  show "SessionMove (next_closure w) \<notin> set (listeners w Window mousemove)"
    using n by (auto simp: matchedD(1)[OF assms])
  show "SessionUp (next_closure w) \<notin> set (listeners w Window mouseup)"
    using n by (auto simp: matchedD(2)[OF assms])
  show "SessionUp (next_closure w) \<notin> set (listeners w Document contextmenu)"
    using n by (auto simp: matchedD(3)[OF assms])
qed

lemma press_matched:
  assumes m: "matched w" and o: "press_options w l = Some opts" and t: "press_this l = Some this"
  shows "listeners (snd (invoke l p w)) Window mousemove = map SessionMove (sessions w @ [next_closure w])"
    and "listeners (snd (invoke l p w)) Window mouseup = map SessionUp (sessions w @ [next_closure w])"
    and "listeners (snd (invoke l p w)) Document contextmenu = map SessionUp (sessions w @ [next_closure w])"
    and "sessions (snd (invoke l p w)) = sessions w @ [next_closure w]"
    and "matched (snd (invoke l p w))"
proof -
  let ?w = "snd (invoke l p w)"
  have "listeners ?w Window mousemove = listeners w Window mousemove @ [SessionMove (next_closure w)]"
    by (simp add: press_listeners[OF o t] fresh_closure[OF m])
  then show a: "listeners ?w Window mousemove = map SessionMove (sessions w @ [next_closure w])"
    by (simp add: matchedD(1)[OF m])
  have "listeners ?w Window mouseup = listeners w Window mouseup @ [SessionUp (next_closure w)]"
    by (simp add: press_listeners[OF o t] fresh_closure[OF m])
  then show b: "listeners ?w Window mouseup = map SessionUp (sessions w @ [next_closure w])"
    by (simp add: matchedD(2)[OF m])
  have "listeners ?w Document contextmenu = listeners w Document contextmenu @ [SessionUp (next_closure w)]"
    by (simp add: press_listeners[OF o t] fresh_closure[OF m])
  then show c: "listeners ?w Document contextmenu = map SessionUp (sessions w @ [next_closure w])"
    by (simp add: matchedD(3)[OF m])
  show "sessions ?w = sessions w @ [next_closure w]"
    by (rule sessions_map[OF a])
  show "matched ?w"
  proof (rule matchedI[OF a b c])
    show "distinct (sessions w @ [next_closure w])"
      using matchedD(4)[OF m] fresh_closure(4)[OF m] by simp
    fix k assume "k \<in> set (sessions w @ [next_closure w])"
    then show "k < next_closure ?w"
      using matchedD(5)[OF m, of k] by (auto simp: press_fields[OF o t])
  qed
qed

lemma onMouseUp_matched:
  assumes m: "matched w"
  shows "listeners (snd (onMouseUp k e w)) Window mousemove = map SessionMove (remove1 k (sessions w))"
    and "listeners (snd (onMouseUp k e w)) Window mouseup = map SessionUp (remove1 k (sessions w))"
    and "listeners (snd (onMouseUp k e w)) Document contextmenu = map SessionUp (remove1 k (sessions w))"
    and "sessions (snd (onMouseUp k e w)) = remove1 k (sessions w)"
    and "matched (snd (onMouseUp k e w))"
proof -
  let ?w = "snd (onMouseUp k e w)"
  show a: "listeners ?w Window mousemove = map SessionMove (remove1 k (sessions w))"
    by (simp add: onMouseUp_listeners matchedD(1)[OF m] remove1_map_SessionMove)
  show b: "listeners ?w Window mouseup = map SessionUp (remove1 k (sessions w))"
    by (simp add: onMouseUp_listeners matchedD(2)[OF m] remove1_map_SessionUp)
  show c: "listeners ?w Document contextmenu = map SessionUp (remove1 k (sessions w))"
    by (simp add: onMouseUp_listeners matchedD(3)[OF m] remove1_map_SessionUp)
  show "sessions ?w = remove1 k (sessions w)"
    by (rule sessions_map[OF a])
  show "matched ?w"
  proof (rule matchedI[OF a b c])
    show "distinct (remove1 k (sessions w))"
      using matchedD(4)[OF m] by simp
    fix j assume "j \<in> set (remove1 k (sessions w))"
    then have "j \<in> set (sessions w)" using set_remove1_subset[of k "sessions w"] by auto
    then show "j < next_closure ?w"
      using matchedD(5)[OF m, of j] by (simp add: onMouseUp_fields)
  qed
qed

lemma onMouseMove_matched:
  "matched w \<Longrightarrow> matched (snd (onMouseMove k e w))"
  by (simp add: matched_def sessions_def onMouseMove_fields)

lemma invoke_matched:
  assumes m: "matched w"
  shows "matched (snd (invoke l e w))"
proof (cases l)
  case (ControllerPress c)
  have o: "press_options w l = Some (c_options (controllers w c))" and t: "press_this l = Some (Controller c)"
    by (simp_all add: ControllerPress press_options_def)
  show ?thesis by (rule press_matched(5)[OF m o t])
next
  case (DirectivePress d)
  show ?thesis
  proof (cases "d_controller (directives w d)")
    case None
    then show ?thesis using m by (simp add: DirectivePress DraggableDirective_onMouseDown_def)
  next
    case (Some c)
    have o: "press_options w l = Some (c_options (controllers w c))" and t: "press_this l = Some (Directive d)"
      by (simp_all add: DirectivePress press_options_def Some)
    show ?thesis by (rule press_matched(5)[OF m o t])
  qed
next
  case (SessionMove k)
  then show ?thesis using onMouseMove_matched[OF m] by simp
next
  case (SessionUp k)
  then show ?thesis using onMouseUp_matched(5)[OF m] by simp
qed

lemma run_listeners_matched:
  "matched w \<Longrightarrow> matched (snd (run_listeners t ty ls e w))"
proof (induction ls arbitrary: e w)
  case Nil
  then show ?case by simp
next
  case (Cons l ls)
  show ?case
  proof (cases "l \<in> set (listeners w t ty)")
    case False
    then show ?thesis using Cons.IH[OF Cons.prems, of e] by simp
  next
    case True
    obtain e' w' where i: "invoke l e w = (e', w')" by (cases "invoke l e w")
    have "matched w'" using invoke_matched[OF Cons.prems, of l e] by (simp add: i)
    then show ?thesis using True Cons.IH[of w' e'] by (simp add: i)
  qed
qed

lemma update_global_listeners:
  "listeners (update d n params w) Window ty = listeners w Window ty"
  "listeners (update d n params w) Document ty = listeners w Document ty"
  "next_closure (update d n params w) = next_closure w"
  "closures (update d n params w) = closures w"
  "calls (update d n params w) = calls w"
  "controllers (update d n params w) = controllers w"
  by (cases params; simp add: update_def Let_def addEventListener_listeners
        removeEventListener_listeners split: option.split)+

lemma step_matched:
  assumes "matched w"
  shows "matched (step i w)"
proof (cases i)
  case (Render d n c x)
  show ?thesis
    using assms by (simp add: Render matched_def sessions_def update_global_listeners)
next
  case (SetData c x)
  show ?thesis
    using assms by (simp add: SetData matched_def sessions_def)
qed (simp_all add: dispatchEvent_def run_listeners_matched[OF assms])

lemma run_matched:
  "matched w \<Longrightarrow> matched (run is w)"
  by (induction "is" arbitrary: w) (simp_all add: step_matched)

section \<open>Release and context menu\<close>

lemma world_eqI:
  fixes w w' :: "'d world"
  assumes "\<And>t ty. listeners w t ty = listeners w' t ty"
    and "controllers w = controllers w'" and "directives w = directives w'"
    and "closures w = closures w'" and "next_closure w = next_closure w'"
    and "calls w = calls w'"
  shows "w = w'"
proof -
  have "listeners w = listeners w'" using assms(1) by (intro ext)
  then show ?thesis using assms(2-6) by simp
qed

lemma preventDefault_idem [simp]: "preventDefault (preventDefault e) = preventDefault e"
  by (simp add: preventDefault_def)

lemma onEnd_call_cong:
  "closures w' = closures w \<Longrightarrow> controllers w' = controllers w \<Longrightarrow> directives w' = directives w
   \<Longrightarrow> onEnd_call w' e k = onEnd_call w e k"
proof -
  assume a: "closures w' = closures w" "controllers w' = controllers w" "directives w' = directives w"
  have "this_data w' = this_data w" by (rule this_data_cong[OF a(2,3)])
  then show ?thesis by (simp add: onEnd_call_def a(1) cong: option.case_cong)
qed

lemma onEnd_call_preventDefault [simp]:
  "onEnd_call w (preventDefault e) k = onEnd_call w e k"
  by (simp add: onEnd_call_def cong: option.case_cong)

lemma run_listeners_up:
  assumes "matched w" and "(t = Window \<and> ty = mouseup) \<or> (t = Document \<and> ty = contextmenu)"
  shows "snd (run_listeners t ty (map SessionUp (sessions w)) e w) = ended e w"
  using assms(1)
proof (induction "sessions w" arbitrary: w e)
  case Nil
  then have "\<And>t ty. global t ty \<Longrightarrow> listeners w t ty = []"
    using matchedD(1-3)[OF Nil.prems] by (auto simp: global_def)
  then show ?case
    using Nil.hyps[symmetric] by (intro world_eqI) (simp_all add: ended_def)
next
  case (Cons k ks)
  let ?w1 = "snd (onMouseUp k e w)"
  have s: "sessions w = k # ks" using Cons.hyps(2) by simp
  have reg: "SessionUp k \<in> set (listeners w t ty)"
    using assms(2) matchedD(2,3)[OF Cons.prems] by (auto simp: s)
  have s1: "sessions ?w1 = ks" and m1: "matched ?w1"
    using onMouseUp_matched(4,5)[OF Cons.prems, of k e] by (simp_all add: s)
  have ih: "snd (run_listeners t ty (map SessionUp (sessions ?w1)) (preventDefault e) ?w1)
              = ended (preventDefault e) ?w1"
    by (rule Cons.hyps(1)[OF s1[symmetric] m1])
  have r: "run_listeners t ty (map SessionUp (sessions w)) e w
             = run_listeners t ty (map SessionUp ks) (preventDefault e) ?w1"
    using reg by (simp add: s prod.case_eq_if onMouseUp_fields)
  have c: "onEnd_call ?w1 (preventDefault e) = onEnd_call w e"
    by (rule ext) (simp add: onEnd_call_cong[of ?w1 w] onMouseUp_fields)
  have k: "calls ?w1 = calls w @ onEnd_call w e k"
    by (simp add: onMouseUp_calls onEnd_call_def)
  have "ended (preventDefault e) ?w1 = ended e w"
  proof (intro world_eqI)
    fix t ty
    show "listeners (ended (preventDefault e) ?w1) t ty = listeners (ended e w) t ty"
      by (auto simp: ended_def onMouseUp_listeners global_def)
  qed (simp_all add: ended_def onMouseUp_fields k s1 s c)
  then show ?case using ih by (simp add: r s1)
qed

lemma step_Release: "matched w \<Longrightarrow> step (Release e) w = ended e w"
  by (simp add: dispatchEvent_def matchedD(2) run_listeners_up)

lemma step_ContextMenu: "matched w \<Longrightarrow> step (ContextMenu e) w = ended e w"
  by (simp add: dispatchEvent_def matchedD(3) run_listeners_up)

lemma ended_listeners:
  "listeners (ended e w) Window mousemove = []"
  "listeners (ended e w) Window mouseup = []"
  "listeners (ended e w) Document contextmenu = []"
  by (simp_all add: ended_def global_def)

section \<open>Movement\<close>

lemma idle_matched: "idle w \<Longrightarrow> matched w"
  by (simp add: idle_def matched_def sessions_def)

lemma idle_sessions: "idle w \<Longrightarrow> sessions w = []"
  by (simp add: idle_def sessions_def)

lemma onMouseMove_world:
  "onMouseMove k e w = (preventDefault e, w\<lparr>calls := calls w @ onMove_call w e k\<rparr>)"
  by (simp add: onMouseMove_def onMove_call_def Let_def preventDefault_def split: option.split)

lemma onMove_call_calls_update [simp]:
  "onMove_call (w\<lparr>calls := cs\<rparr>) e k = onMove_call w e k"
  by (simp add: onMove_call_def cong: option.case_cong)

lemma clientX_preventDefault [simp]:
  "clientX (preventDefault e) = clientX e" "clientY (preventDefault e) = clientY e"
  by (simp_all add: preventDefault_def)

lemma onMove_call_preventDefault [simp]:
  "onMove_call w (preventDefault e) k = onMove_call w e k"
  by (simp add: onMove_call_def cong: option.case_cong)

lemma run_listeners_move:
  "\<forall>k \<in> set ks. SessionMove k \<in> set (listeners w Window mousemove) \<Longrightarrow>
   snd (run_listeners Window mousemove (map SessionMove ks) e w)
     = w\<lparr>calls := calls w @ concat (map (onMove_call w e) ks)\<rparr>"
proof (induction ks arbitrary: e w)
  case Nil
  show ?case by simp
next
  case (Cons k ks)
  let ?w1 = "w\<lparr>calls := calls w @ onMove_call w e k\<rparr>"
  have "\<forall>j \<in> set ks. SessionMove j \<in> set (listeners ?w1 Window mousemove)"
    using Cons.prems by simp
  from Cons.IH[OF this, of "preventDefault e"]
  show ?case using Cons.prems by (simp add: onMouseMove_world)
qed

lemma step_Move:
  assumes "matched w"
  shows "step (Move e) w = w\<lparr>calls := calls w @ concat (map (onMove_call w e) (sessions w))\<rparr>"
proof -
  have "\<forall>k \<in> set (sessions w). SessionMove k \<in> set (listeners w Window mousemove)"
    by (simp add: matchedD(1)[OF assms])
  from run_listeners_move[OF this, of e]
  show ?thesis by (simp add: dispatchEvent_def matchedD(1)[OF assms])
qed

lemma matched_calls_update [simp]: "matched (w\<lparr>calls := cs\<rparr>) = matched w"
  by (simp add: matched_def sessions_def)

lemma sessions_calls_update [simp]: "sessions (w\<lparr>calls := cs\<rparr>) = sessions w"
  by (simp add: sessions_def)

lemma run_Moves:
  assumes "matched w"
  shows "run (map Move ms) w
           = w\<lparr>calls := calls w @ concat (map (\<lambda>m. concat (map (onMove_call w m) (sessions w))) ms)\<rparr>"
  using assms
proof (induction ms arbitrary: w)
  case Nil
  show ?case by simp
next
  case (Cons m ms)
  let ?w1 = "w\<lparr>calls := calls w @ concat (map (onMove_call w m) (sessions w))\<rparr>"
  have m1: "matched ?w1" using Cons.prems by simp
  have f: "\<And>e. onMove_call ?w1 e = onMove_call w e" by (rule ext) simp
  show ?case
    using Cons.IH[OF m1] by (simp add: step_Move[OF Cons.prems] f del: step.simps)
qed

section \<open>Sequences of inputs\<close>

lemma run_append: "run (xs @ ys) w = run ys (run xs w)"
  by (induction xs arbitrary: w) simp_all

lemma step_Press_single:
  "listeners w (Element n) mousedown = [l] \<Longrightarrow> step (Press n p) w = snd (invoke l p w)"
  by (simp add: dispatchEvent_def split: prod.split)

lemma session_scope:
  assumes o: "press_options w l = Some opts" and t: "press_this l = Some this"
  shows "closures (run is (snd (invoke l p w))) (next_closure w) =
        (let config = start_config opts p (this_data w this)
         in \<lparr>var_this = this,
             var_startX = nullish_or (optional_chain config startX) 0,
             var_startY = nullish_or (optional_chain config startY) 0,
             var_clientX = clientX p,
             var_clientY = clientY p,
             var_onMove = nullish (onMove opts) (optional_chain config res_onMove),
             var_onEnd = nullish (onEnd opts) (optional_chain config res_onEnd)\<rparr>)"
proof -
  have "next_closure w < next_closure (snd (invoke l p w))"
    by (simp add: press_fields[OF o t])
  then have "closures (run is (snd (invoke l p w))) (next_closure w)
               = closures (snd (invoke l p w)) (next_closure w)"
    using run_frame[of "snd (invoke l p w)" "is"] by blast
  then show ?thesis by (simp add: press_scope[OF o t])
qed

text \<open>
  From here on an input is taken apart by the lemmas about \<open>step\<close> only, not by its
  defining equations.
\<close>

declare step.simps [simp del]

lemma onEnd_call_calls_update [simp]:
  "onEnd_call (w\<lparr>calls := cs\<rparr>) e k = onEnd_call w e k"
  by (simp add: onEnd_call_def cong: option.case_cong)

lemma ended_idle: "idle w \<Longrightarrow> ended e w = w"
  by (intro world_eqI) (auto simp: ended_def idle_def global_def sessions_def)

lemma idle_ended: "idle (ended e w)"
  by (simp add: idle_def ended_listeners)

lemma concat_map_singleton: "concat (map (\<lambda>x. [h x]) xs) = map h xs"
  by (induction xs) simp_all

section \<open>One session at a time\<close>

text \<open>One press in an idle world, on a node with one press listener.\<close>

lemma first_press:
  assumes i: "idle w" and n: "listeners w (Element n) mousedown = [l]"
    and o: "press_options w l = Some opts" and t: "press_this l = Some this"
  shows "matched (step (Press n p) w)"
    and "sessions (step (Press n p) w) = [next_closure w]"
    and "calls (step (Press n p) w)
           = calls w @ (case onStart opts of None \<Rightarrow> [] | Some s \<Rightarrow> [OnStart p (this_data w this)])"
    and "this_data (step (Press n p) w) = this_data w"
    and "closures (step (Press n p) w) (next_closure w) =
           \<lparr>var_this = this,
            var_startX = nullish_or (optional_chain (start_config opts p (this_data w this)) startX) 0,
            var_startY = nullish_or (optional_chain (start_config opts p (this_data w this)) startY) 0,
            var_clientX = clientX p,
            var_clientY = clientY p,
            var_onMove = nullish (onMove opts) (optional_chain (start_config opts p (this_data w this)) res_onMove),
            var_onEnd = nullish (onEnd opts) (optional_chain (start_config opts p (this_data w this)) res_onEnd)\<rparr>"
proof -
  have s: "step (Press n p) w = snd (invoke l p w)" by (rule step_Press_single[OF n])
  have m: "matched w" by (rule idle_matched[OF i])
  show "matched (step (Press n p) w)" unfolding s by (rule press_matched(5)[OF m o t])
  show "sessions (step (Press n p) w) = [next_closure w]"
    unfolding s by (simp add: press_matched(4)[OF m o t] idle_sessions[OF i])
  show "calls (step (Press n p) w)
           = calls w @ (case onStart opts of None \<Rightarrow> [] | Some s \<Rightarrow> [OnStart p (this_data w this)])"
    unfolding s by (rule press_calls[OF o t])
  show "this_data (step (Press n p) w) = this_data w"
    unfolding s by (rule this_data_cong) (simp_all add: press_fields[OF o t])
  show "closures (step (Press n p) w) (next_closure w) =
           \<lparr>var_this = this,
            var_startX = nullish_or (optional_chain (start_config opts p (this_data w this)) startX) 0,
            var_startY = nullish_or (optional_chain (start_config opts p (this_data w this)) startY) 0,
            var_clientX = clientX p,
            var_clientY = clientY p,
            var_onMove = nullish (onMove opts) (optional_chain (start_config opts p (this_data w this)) res_onMove),
            var_onEnd = nullish (onEnd opts) (optional_chain (start_config opts p (this_data w this)) res_onEnd)\<rparr>"
    unfolding s by (simp add: press_scope[OF o t] Let_def)
qed

text \<open>Movements while one session is active.\<close>

lemma run_Moves_single:
  assumes m: "matched w" and s: "sessions w = [k]"
  shows "run (map Move ms) w = w\<lparr>calls := calls w @ concat (map (\<lambda>m. onMove_call w m k) ms)\<rparr>"
  by (simp add: run_Moves[OF m] s)

lemma step_Release_single:
  assumes m: "matched w" and s: "sessions w = [k]"
  shows "step (Release r) w = ended r w" and "calls (ended r w) = calls w @ onEnd_call w r k"
  using step_Release[OF m] by (simp_all add: ended_def s)

section \<open>Rendering again, and assigning the payload\<close>

lemma update_directive:
  "directives (update d n (c, x) w) =
     (directives w)(d := \<lparr>d_controller = nullish (d_controller (directives w d)) (Some c),
                           d_element = Some n, d_data = x\<rparr>)"
  by (cases "directives w d")
     (auto simp: update_def Let_def fun_eq_iff split: option.split)

lemma update_listeners:
  "listeners (update d n (c, x) w) t ty =
     (case d_element (directives w d) of
        None \<Rightarrow> listeners (addEventListener (Element n) mousedown (DirectivePress d) w) t ty
      | Some old \<Rightarrow>
          if old = n then listeners w t ty
          else listeners (addEventListener (Element n) mousedown (DirectivePress d)
                 (removeEventListener (Element old) mousedown (DirectivePress d) w)) t ty)"
  by (simp add: update_def Let_def split: option.split)

lemma step_Render:
  "step (Render d n c x) w = update d n (c, x) w"
  by (simp add: step.simps handle_def)

lemma payload_step:
  assumes j: "(this = Directive d \<and> j = Render d n c x) \<or> (this = Controller d \<and> j = SetData d x)"
  shows "sessions (step j w) = sessions w"
    and "closures (step j w) = closures w"
    and "calls (step j w) = calls w"
    and "this_data (step j w) this = x"
  using j
  by (auto simp: step_Render step.simps update_global_listeners update_directive this_data_def
        sessions_def)

lemma update_fields:
  "next_closure (update d n (c, x) w) = next_closure w"
  "closures (update d n (c, x) w) = closures w"
  "calls (update d n (c, x) w) = calls w"
  "controllers (update d n (c, x) w) = controllers w"
  "sessions (update d n (c, x) w) = sessions w"
  "matched (update d n (c, x) w) = matched w"
  by (simp_all add: update_global_listeners matched_def sessions_def)

section \<open>Evaluating the examples\<close>

lemmas example_defs =
  page_def mouse_def prevented_def start_at_50_def start_void_def static_options_def
  void_options_def returned_options_def both_options_def move_only_options_def self_drag_def
  with_handle_def

lemmas handler_defs =
  DragController_new_def update_def handle_def addEventListener_def removeEventListener_def
  dispatchEvent_def DragController_onMouseDown_def DraggableDirective_onMouseDown_def
  start_session_def onMouseMove_def onMouseUp_def this_data_def preventDefault_def
  nullish_def nullish_or_def optional_chain_def Let_def step.simps

section \<open>The claims\<close>

subsection \<open>Which callback a session invokes\<close>

text \<open>
  C1 fails on the code. The options supply \<^verbatim>\<open>onMove\<close> = 1 and \<^verbatim>\<open>onEnd\<close> = 3, and
  \<^verbatim>\<open>onStart\<close> returns a result with \<^verbatim>\<open>onMove\<close> = 2 and \<^verbatim>\<open>onEnd\<close> = 4. A press, a
  movement and a release invoke the callbacks 1 and 3, on the controller's own target as
  well as on a handle bound by the directive; the claim requires 2 and 4. Lines 80-81
  and 163-164 assign with \<^verbatim>\<open>??=\<close>, which keeps a configured callback and takes the
  returned one only where the options supply none, while the documentation of \<^verbatim>\<open>onStart\<close>
  (lines 174-175) says its return value overrides the default behaviour and the class
  comment (lines 23-25) that it passes \<^verbatim>\<open>onMove\<close> and \<^verbatim>\<open>onEnd\<close> instead. Each phase is
  decided alone: with only \<^verbatim>\<open>onMove\<close> = 1 configured, the session invokes 1 on the
  movement and the returned 4 at its end.
\<close>

theorem returned_callbacks_ignored_when_configured:
  "calls (run [Press 7 (mouse 100 100), Move (mouse 120 130), Release (mouse 125 135)]
            (self_drag both_options))
     = [OnStart (mouse 100 100) None, OnMove 1 70 80 (prevented 120 130) None,
        OnEnd 3 (prevented 125 135) None]
   \<and> calls (run [Press 8 (mouse 100 100), Move (mouse 120 130), Release (mouse 125 135)]
              (with_handle both_options))
       = [OnStart (mouse 100 100) (Some ''first''),
          OnMove 1 70 80 (prevented 120 130) (Some ''first''),
          OnEnd 3 (prevented 125 135) (Some ''first'')]
   \<and> calls (run [Press 7 (mouse 100 100), Move (mouse 120 130), Release (mouse 125 135)]
              (self_drag move_only_options))
       = [OnStart (mouse 100 100) None, OnMove 1 70 80 (prevented 120 130) None,
          OnEnd 4 (prevented 125 135) None]"
  by code_simp

subsection \<open>The starting position\<close>

text \<open>
  C3 fails on the code. The host of the controller is at offset (50, 50) and there is no
  \<^verbatim>\<open>onStart\<close>, or one that returns nothing: after a press at (100, 100), a movement to
  (120, 130) passes (20, 30) to \<^verbatim>\<open>onMove\<close>. With the host's offset as the starting
  position the values would be (70, 80). Lines 46-47 read the offset into \<^verbatim>\<open>startX\<close> and
  \<^verbatim>\<open>startY\<close>; lines 82-83 overwrite both with \<^verbatim>\<open>config?.startX ?? 0\<close> and
  \<^verbatim>\<open>config?.startY ?? 0\<close> before any movement can be handled.
\<close>

theorem press_without_start_result_at_offset_50:
  "offsetLeft (c_host (controllers (self_drag static_options) 0)) = 50
   \<and> offsetTop (c_host (controllers (self_drag static_options) 0)) = 50
   \<and> calls (run [Press 7 (mouse 100 100), Move (mouse 120 130)] (self_drag static_options))
       = [OnMove 1 20 30 (prevented 120 130) None]
   \<and> calls (run [Press 7 (mouse 100 100), Move (mouse 120 130)] (self_drag void_options))
       = [OnStart (mouse 100 100) None, OnMove 1 20 30 (prevented 120 130) None]"
  by code_simp

text \<open>
  C4. When \<^verbatim>\<open>onStart\<close> is absent or returns no result, the variables \<^verbatim>\<open>startX\<close> and
  \<^verbatim>\<open>startY\<close> of the session are 0 when the press handler returns and in every world
  reached afterwards, for the controller and for the directive; a movement event handled
  by the session then passes \<open>clientX m - clientX p\<close> and \<open>clientY m - clientY p\<close> to
  \<^verbatim>\<open>onMove\<close>, where \<open>p\<close> is the press: the host's offset takes no part.
\<close>

theorem no_start_result_means_start_zero:
  assumes o: "press_options w l = Some opts" and t: "press_this l = Some this"
    and c: "start_config opts p (this_data w this) = None"
    and f: "onMove opts = Some f"
  shows "var_startX (closures (run is (snd (invoke l p w))) (next_closure w)) = 0
       \<and> var_startY (closures (run is (snd (invoke l p w))) (next_closure w)) = 0
       \<and> calls (snd (onMouseMove (next_closure w) m (run is (snd (invoke l p w)))))
           = calls (run is (snd (invoke l p w)))
             @ [OnMove f (clientX m - clientX p) (clientY m - clientY p) (preventDefault m)
                  (this_data (run is (snd (invoke l p w))) this)]"
  by (simp add: session_scope[OF o t] c f onMouseMove_calls optional_chain_def nullish_def
        nullish_or_def)

theorem no_start_result_means_start_zero_witness:
  "offsetLeft (c_host (controllers (self_drag static_options) 0)) = 50
   \<and> press_options (self_drag static_options) (ControllerPress 0) = Some static_options
   \<and> start_config static_options (mouse 100 100) None = None
   \<and> calls (snd (onMouseMove 0 (mouse 120 130)
               (snd (invoke (ControllerPress 0) (mouse 100 100) (self_drag static_options)))))
       = [OnMove 1 20 30 (prevented 120 130) None]"
proof -
  let ?w = "self_drag static_options"
  let ?w' = "snd (invoke (ControllerPress 0) (mouse 100 100) ?w)"
  have h: "offsetLeft (c_host (controllers ?w 0)) = 50"
    by (simp add: example_defs handler_defs)
  have o: "press_options ?w (ControllerPress 0) = Some static_options"
    by (simp add: press_options_def example_defs handler_defs)
  have t: "press_this (ControllerPress 0) = Some (Controller 0)" by simp
  have d: "this_data ?w (Controller 0) = None"
    by (simp add: example_defs handler_defs)
  have c: "start_config static_options (mouse 100 100) (this_data ?w (Controller 0)) = None"
    by (simp add: start_config_def static_options_def)
  have f: "onMove static_options = Some 1" by (simp add: static_options_def)
  have e: "calls ?w' = []" "this_data ?w' (Controller 0) = None" "next_closure ?w = 0"
    by (simp_all add: example_defs handler_defs)
  note r = no_start_result_means_start_zero[OF o t c f, of "[]" "mouse 120 130"]
  show ?thesis
    using r e h o c d by (simp add: mouse_def prevented_def preventDefault_def)
qed

subsection \<open>The values passed to onMove\<close>

text \<open>
  C5. Let a press \<open>p\<close> start a session, let \<open>config\<close> be what \<^verbatim>\<open>onStart\<close> returned, and
  \<open>sx = config?.startX ?? 0\<close>, \<open>sy = config?.startY ?? 0\<close> the resolved starting offset.
  In every world reached after the press, the session's \<^verbatim>\<open>onMouseMove\<close> on a movement
  event \<open>m\<close> passes \<open>clientX m - clientX p + sx\<close> and \<open>clientY m - clientY p + sy\<close> to the
  resolved \<^verbatim>\<open>onMove\<close>, with the event (default prevented) and the current payload. When
  the global listeners were matched before the press, a movement event dispatched right
  after it makes the calls of the sessions that were active already and then this call.
  The witness is the instance of the claim: press (100, 100), start (50, 50), movement
  (120, 130), values (70, 80).
\<close>

theorem delta_computation:
  assumes o: "press_options w l = Some opts" and t: "press_this l = Some this"
    and c: "config = start_config opts p (this_data w this)"
    and x: "sx = nullish_or (optional_chain config startX) 0"
    and y: "sy = nullish_or (optional_chain config startY) 0"
    and f: "nullish (onMove opts) (optional_chain config res_onMove) = Some f"
  shows "calls (snd (onMouseMove (next_closure w) m (run is (snd (invoke l p w)))))
           = calls (run is (snd (invoke l p w)))
             @ [OnMove f (clientX m - clientX p + sx) (clientY m - clientY p + sy) (preventDefault m)
                  (this_data (run is (snd (invoke l p w))) this)]
       \<and> (matched w \<longrightarrow>
            calls (step (Move m) (snd (invoke l p w)))
              = calls (snd (invoke l p w))
                @ concat (map (onMove_call (snd (invoke l p w)) m) (sessions w))
                @ [OnMove f (clientX m - clientX p + sx) (clientY m - clientY p + sy)
                     (preventDefault m) (this_data w this)])"
proof -
  let ?w = "snd (invoke l p w)"
  have "calls (step (Move m) ?w)
          = calls ?w @ concat (map (onMove_call ?w m) (sessions w))
            @ [OnMove f (clientX m - clientX p + sx) (clientY m - clientY p + sy)
                 (preventDefault m) (this_data w this)]"
    if m: "matched w"
  proof -
    have d: "this_data ?w = this_data w"
      by (rule this_data_cong) (simp_all add: press_fields[OF o t])
    have k: "onMove_call ?w m (next_closure w)
               = [OnMove f (clientX m - clientX p + sx) (clientY m - clientY p + sy)
                    (preventDefault m) (this_data w this)]"
      using f by (simp add: onMove_call_def press_scope[OF o t] Let_def c x y d)
    show ?thesis
      by (simp add: step_Move[OF press_matched(5)[OF m o t]] press_matched(4)[OF m o t] k)
  qed
  then show ?thesis
    using f by (simp add: session_scope[OF o t] c x y onMouseMove_calls Let_def)
qed

theorem delta_computation_witness:
  "press_options (self_drag returned_options) (ControllerPress 0) = Some returned_options
   \<and> start_config returned_options (mouse 100 100) None
       = Some \<lparr>startX = Some 50, startY = Some 50, res_onMove = Some 2, res_onEnd = Some 4\<rparr>
   \<and> matched (self_drag returned_options)
   \<and> calls (snd (onMouseMove 0 (mouse 120 130)
               (snd (invoke (ControllerPress 0) (mouse 100 100) (self_drag returned_options)))))
       = [OnStart (mouse 100 100) None, OnMove 2 70 80 (prevented 120 130) None]
   \<and> calls (step (Move (mouse 120 130))
               (snd (invoke (ControllerPress 0) (mouse 100 100) (self_drag returned_options))))
       = [OnStart (mouse 100 100) None, OnMove 2 70 80 (prevented 120 130) None]"
proof -
  let ?w = "self_drag returned_options"
  let ?w' = "snd (invoke (ControllerPress 0) (mouse 100 100) ?w)"
  let ?r = "\<lparr>startX = Some 50, startY = Some 50, res_onMove = Some 2, res_onEnd = Some 4\<rparr>"
  have o: "press_options ?w (ControllerPress 0) = Some returned_options"
    by (simp add: press_options_def example_defs handler_defs)
  have t: "press_this (ControllerPress 0) = Some (Controller 0)" by simp
  have d: "this_data ?w (Controller 0) = None" and m: "matched ?w" and s: "sessions ?w = []"
    by code_simp+
  have c: "Some ?r = start_config returned_options (mouse 100 100) (this_data ?w (Controller 0))"
    by (simp add: start_config_def returned_options_def start_at_50_def)
  have x: "50 = nullish_or (optional_chain (Some ?r) startX) 0"
    and y: "50 = nullish_or (optional_chain (Some ?r) startY) 0"
    by (simp_all add: nullish_or_def optional_chain_def)
  have f: "nullish (onMove returned_options) (optional_chain (Some ?r) res_onMove) = Some 2"
    by (simp add: nullish_def optional_chain_def returned_options_def)
  have e: "calls ?w' = [OnStart (mouse 100 100) None]" "this_data ?w' (Controller 0) = None"
      "next_closure ?w = 0"
    by code_simp+
  note r = delta_computation[OF o t c x y f, of "mouse 120 130" "[]"]
  show ?thesis
    using r e o c[symmetric] d m s by (simp add: mouse_def prevented_def preventDefault_def)
qed

subsection \<open>The order of the callbacks\<close>

text \<open>
  C6. In an idle world, a press on a node that has one press listener, then the movement
  events \<open>ms\<close>, then a release: with an \<^verbatim>\<open>onStart\<close> in the options and \<^verbatim>\<open>onMove\<close> and
  \<^verbatim>\<open>onEnd\<close> resolved (from the options or from the result of \<^verbatim>\<open>onStart\<close>), the calls
  this sequence adds are one \<^verbatim>\<open>onStart\<close>, then one \<^verbatim>\<open>onMove\<close> for each movement event in the
  order of the events, then one \<^verbatim>\<open>onEnd\<close>, and nothing else; the world is idle again. A
  callback that is neither configured nor returned is skipped (lemma \<open>first_press\<close> and
  the definitions \<open>onMove_call\<close>, \<open>onEnd_call\<close>).
\<close>

theorem press_moves_release_calls:
  assumes i: "idle w" and n: "listeners w (Element n) mousedown = [l]"
    and o: "press_options w l = Some opts" and t: "press_this l = Some this"
    and s: "onStart opts = Some s"
    and c: "config = s p (this_data w this)"
    and f: "nullish (onMove opts) (optional_chain config res_onMove) = Some f"
    and g: "nullish (onEnd opts) (optional_chain config res_onEnd) = Some g"
  shows "calls (run (Press n p # map Move ms @ [Release r]) w)
           = calls w
             @ [OnStart p (this_data w this)]
             @ map (\<lambda>m. OnMove f (clientX m - clientX p + nullish_or (optional_chain config startX) 0)
                             (clientY m - clientY p + nullish_or (optional_chain config startY) 0)
                             (preventDefault m) (this_data w this)) ms
             @ [OnEnd g (preventDefault r) (this_data w this)]
         \<and> idle (run (Press n p # map Move ms @ [Release r]) w)"
proof -
  let ?k = "next_closure w"
  let ?w1 = "step (Press n p) w"
  let ?w2 = "run (map Move ms) ?w1"
  note p = first_press[OF i n o t, of p]
  have sc: "start_config opts p (this_data w this) = config"
    by (simp add: start_config_def s c)
  have mv: "\<And>m. onMove_call ?w1 m ?k =
      [OnMove f (clientX m - clientX p + nullish_or (optional_chain config startX) 0)
         (clientY m - clientY p + nullish_or (optional_chain config startY) 0)
         (preventDefault m) (this_data w this)]"
    by (simp add: onMove_call_def p(4,5) sc f)
  have en: "onEnd_call ?w1 r ?k = [OnEnd g (preventDefault r) (this_data w this)]"
    by (simp add: onEnd_call_def p(4,5) sc g)
  have w2: "?w2 = ?w1\<lparr>calls := calls ?w1 @ concat (map (\<lambda>m. onMove_call ?w1 m ?k) ms)\<rparr>"
    by (rule run_Moves_single[OF p(1,2)])
  have m2: "matched ?w2" and s2: "sessions ?w2 = [?k]"
    unfolding w2 using p(1,2) by simp_all
  have r: "run (Press n p # map Move ms @ [Release r]) w = ended r ?w2"
    using step_Release_single(1)[OF m2 s2, of r] by (simp add: run_append del: step.simps)
  have "calls (ended r ?w2) = calls ?w2 @ onEnd_call ?w2 r ?k"
    by (rule step_Release_single(2)[OF m2 s2])
  also have "\<dots> = calls ?w1 @ concat (map (\<lambda>m. onMove_call ?w1 m ?k) ms) @ onEnd_call ?w1 r ?k"
    unfolding w2 by simp
  finally show ?thesis
    unfolding r by (simp add: p(3) s mv en concat_map_singleton idle_ended)
qed

theorem press_moves_release_calls_witness:
  "idle (self_drag returned_options)
   \<and> listeners (self_drag returned_options) (Element 7) mousedown = [ControllerPress 0]
   \<and> onStart returned_options = Some start_at_50
   \<and> calls (run [Press 7 (mouse 100 100), Move (mouse 110 110), Move (mouse 120 130),
                  Release (mouse 125 135)] (self_drag returned_options))
       = [OnStart (mouse 100 100) None, OnMove 2 60 60 (prevented 110 110) None,
          OnMove 2 70 80 (prevented 120 130) None, OnEnd 4 (prevented 125 135) None]"
proof -
  let ?w = "self_drag returned_options"
  let ?r = "\<lparr>startX = Some 50, startY = Some 50, res_onMove = Some 2, res_onEnd = Some 4\<rparr>"
  have i: "idle ?w" and n: "listeners ?w (Element 7) mousedown = [ControllerPress 0]"
    by (simp_all add: idle_def example_defs handler_defs)
  have o: "press_options ?w (ControllerPress 0) = Some returned_options"
    by (simp add: press_options_def example_defs handler_defs)
  have t: "press_this (ControllerPress 0) = Some (Controller 0)" by simp
  have s: "onStart returned_options = Some start_at_50" by (simp add: returned_options_def)
  have d: "this_data ?w (Controller 0) = None" "calls ?w = []"
    by (simp_all add: example_defs handler_defs)
  have c: "Some ?r = start_at_50 (mouse 100 100) (this_data ?w (Controller 0))"
    by (simp add: start_at_50_def)
  have f: "nullish (onMove returned_options) (optional_chain (Some ?r) res_onMove) = Some 2"
    and g: "nullish (onEnd returned_options) (optional_chain (Some ?r) res_onEnd) = Some 4"
    by (simp_all add: nullish_def optional_chain_def returned_options_def)
  note r = press_moves_release_calls[OF i n o t s c f g,
      of "[mouse 110 110, mouse 120 130]" "mouse 125 135"]
  show ?thesis
    using r i n s d
    by (simp add: mouse_def prevented_def preventDefault_def nullish_or_def optional_chain_def)
qed

subsection \<open>The end of a session\<close>

text \<open>
  C7. In every world whose global listeners are matched (every reachable world is:
  \<open>run_matched\<close>), a release and a context-menu event do the same: all three global
  lists are empty afterwards, each active session has passed its \<^verbatim>\<open>onEnd\<close> call once
  (\<open>onEnd_call\<close> is one call when \<^verbatim>\<open>onEnd\<close> is resolved, the sessions are distinct), and
  later movement, release and context-menu events change nothing, so no callback is
  invoked.
\<close>

theorem release_or_context_menu_ends_every_session:
  assumes m: "matched w" and i: "i = Release r \<or> i = ContextMenu r"
  shows "listeners (step i w) Window mousemove = []
       \<and> listeners (step i w) Window mouseup = []
       \<and> listeners (step i w) Document contextmenu = []
       \<and> calls (step i w) = calls w @ concat (map (onEnd_call w r) (sessions w))
       \<and> run (map Move ms) (step i w) = step i w
       \<and> step (Release r') (step i w) = step i w
       \<and> step (ContextMenu r') (step i w) = step i w
       \<and> step (Release r) w = step (ContextMenu r) w"
proof -
  have e: "step i w = ended r w"
    using i step_Release[OF m] step_ContextMenu[OF m] by auto
  have id: "idle (ended r w)" by (rule idle_ended)
  have mv: "run (map Move ms) (ended r w) = ended r w"
    using run_Moves[OF idle_matched[OF id], of ms] by (simp add: idle_sessions[OF id])
  have l: "step (Release r') (ended r w) = ended r w" "step (ContextMenu r') (ended r w) = ended r w"
    by (simp_all add: step_Release[OF idle_matched[OF id]] step_ContextMenu[OF idle_matched[OF id]]
          ended_idle[OF id])
  show ?thesis
    unfolding e
    by (simp add: ended_listeners mv l step_Release[OF m] step_ContextMenu[OF m])
       (simp add: ended_def)
qed


theorem release_or_context_menu_ends_every_session_witness:
  "matched (step (Press 7 (mouse 100 100)) (self_drag both_options))
   \<and> sessions (step (Press 7 (mouse 100 100)) (self_drag both_options)) = [0]
   \<and> listeners (step (ContextMenu (mouse 5 5)) (step (Press 7 (mouse 100 100)) (self_drag both_options)))
         Window mousemove = []
   \<and> listeners (step (ContextMenu (mouse 5 5)) (step (Press 7 (mouse 100 100)) (self_drag both_options)))
         Window mouseup = []
   \<and> listeners (step (ContextMenu (mouse 5 5)) (step (Press 7 (mouse 100 100)) (self_drag both_options)))
         Document contextmenu = []
   \<and> calls (step (ContextMenu (mouse 5 5)) (step (Press 7 (mouse 100 100)) (self_drag both_options)))
       = [OnStart (mouse 100 100) None, OnEnd 3 (prevented 5 5) None]
   \<and> calls (run [Move (mouse 9 9), Move (mouse 10 10)]
              (step (ContextMenu (mouse 5 5)) (step (Press 7 (mouse 100 100)) (self_drag both_options))))
       = [OnStart (mouse 100 100) None, OnEnd 3 (prevented 5 5) None]"
proof -
  let ?w = "step (Press 7 (mouse 100 100)) (self_drag both_options)"
  have s: "sessions ?w = [0]" and m: "matched ?w"
    by code_simp+
  have i: "ContextMenu (mouse 5 5) = Release (mouse 5 5) \<or> ContextMenu (mouse 5 5) = ContextMenu (mouse 5 5)"
    by simp
  have e: "calls ?w = [OnStart (mouse 100 100) None]"
      "onEnd_call ?w (mouse 5 5) 0 = [OnEnd 3 (prevented 5 5) None]"
    by code_simp+
  note r = release_or_context_menu_ends_every_session[OF m i,
      of "[mouse 9 9, mouse 10 10]" "mouse 0 0"]
  have mv: "run [Move (mouse 9 9), Move (mouse 10 10)] (step (ContextMenu (mouse 5 5)) ?w)
              = step (ContextMenu (mouse 5 5)) ?w"
    using r by simp
  show ?thesis
    unfolding mv using r m s e by simp
qed

subsection \<open>Presses during a session\<close>

text \<open>
  C2, as stated, fails: no guard stops a second press. Two presses on the target of the
  same controller leave two sessions of that controller active, with two
  \<^verbatim>\<open>onMouseMove\<close> listeners and two \<^verbatim>\<open>onMouseUp\<close> listeners on the window and two on the
  document; a movement then invokes \<^verbatim>\<open>onMove\<close> twice.
\<close>

theorem second_press_starts_second_session_counterexample:
  "listeners (run [Press 7 (mouse 100 100), Press 7 (mouse 101 101)] (self_drag both_options))
     Window mousemove = [SessionMove 0, SessionMove 1]
   \<and> listeners (run [Press 7 (mouse 100 100), Press 7 (mouse 101 101)] (self_drag both_options))
       Window mouseup = [SessionUp 0, SessionUp 1]
   \<and> listeners (run [Press 7 (mouse 100 100), Press 7 (mouse 101 101)] (self_drag both_options))
       Document contextmenu = [SessionUp 0, SessionUp 1]
   \<and> var_this (closures (run [Press 7 (mouse 100 100), Press 7 (mouse 101 101)]
                            (self_drag both_options)) 0) = Controller 0
   \<and> var_this (closures (run [Press 7 (mouse 100 100), Press 7 (mouse 101 101)]
                            (self_drag both_options)) 1) = Controller 0
   \<and> calls (run [Press 7 (mouse 100 100), Press 7 (mouse 101 101), Move (mouse 120 130)]
              (self_drag both_options))
       = [OnStart (mouse 100 100) None, OnStart (mouse 101 101) None,
          OnMove 1 70 80 (prevented 120 130) None, OnMove 1 69 79 (prevented 120 130) None]"
  by code_simp

text \<open>
  C2, amended. Every press handled by the listener of a controller or directive starts a
  session of its own, also while sessions are active: it appends one fresh closure to
  each of the three global lists, which stay matched, and the new session belongs to the
  same instance. One release or context-menu event afterwards ends all of them.
\<close>

theorem press_during_session_starts_another:
  assumes m: "matched w" and n: "listeners w (Element n) mousedown = [l]"
    and o: "press_options w l = Some opts" and t: "press_this l = Some this"
  shows "listeners (step (Press n p) w) Window mousemove
           = listeners w Window mousemove @ [SessionMove (next_closure w)]
       \<and> listeners (step (Press n p) w) Window mouseup
           = listeners w Window mouseup @ [SessionUp (next_closure w)]
       \<and> listeners (step (Press n p) w) Document contextmenu
           = listeners w Document contextmenu @ [SessionUp (next_closure w)]
       \<and> sessions (step (Press n p) w) = sessions w @ [next_closure w]
       \<and> var_this (closures (step (Press n p) w) (next_closure w)) = this
       \<and> matched (step (Press n p) w)
       \<and> idle (step (Release r) (step (Press n p) w))
       \<and> idle (step (ContextMenu r) (step (Press n p) w))"
proof -
  have s: "step (Press n p) w = snd (invoke l p w)" by (rule step_Press_single[OF n])
  note pm = press_matched[OF m o t, of p]
  show ?thesis
    unfolding s
    by (simp add: pm matchedD(1-3)[OF m] press_scope[OF o t] Let_def
          step_Release[OF pm(5)] step_ContextMenu[OF pm(5)] idle_ended)
qed

theorem press_during_session_starts_another_witness:
  "matched (step (Press 7 (mouse 100 100)) (self_drag both_options))
   \<and> sessions (step (Press 7 (mouse 100 100)) (self_drag both_options)) = [0]
   \<and> listeners (step (Press 7 (mouse 100 100)) (self_drag both_options)) (Element 7) mousedown
       = [ControllerPress 0]
   \<and> sessions (step (Press 7 (mouse 101 101)) (step (Press 7 (mouse 100 100)) (self_drag both_options)))
       = [0, 1]
   \<and> var_this (closures (step (Press 7 (mouse 101 101))
                            (step (Press 7 (mouse 100 100)) (self_drag both_options))) 1)
       = Controller 0"
proof -
  let ?w = "step (Press 7 (mouse 100 100)) (self_drag both_options)"
  have s: "sessions ?w = [0]" and m: "matched ?w"
    by code_simp+
  have n: "listeners ?w (Element 7) mousedown = [ControllerPress 0]"
    and k: "next_closure ?w = 1"
    by code_simp+
  have o: "press_options ?w (ControllerPress 0) = Some both_options"
    by (simp add: press_options_def example_defs handler_defs)
  have t: "press_this (ControllerPress 0) = Some (Controller 0)" by simp
  note r = press_during_session_starts_another[OF m n o t, of "mouse 101 101" "mouse 0 0"]
  show ?thesis
    using r m s n k by simp
qed

subsection \<open>Rebinding the directive\<close>

text \<open>
  C8. Let the directive \<open>d\<close> be bound to the node \<open>old\<close>, whose press listeners are
  registered once each, and let it be updated at a node \<open>new\<close> other than \<open>old\<close>. Then
  its press listener is removed from \<open>old\<close> and is no longer among the listeners of
  \<open>old\<close>; it is appended to those of \<open>new\<close> (unless it was there already); no other
  listener list changes; the directive records \<open>new\<close> as its element. When it was the
  only press listener of \<open>old\<close>, a press on \<open>old\<close> now changes nothing at all; when
  \<open>new\<close> had no press listener, a press on \<open>new\<close> starts one more session, which belongs
  to the directive. An update at the same node \<open>old\<close> changes no listener list.
\<close>

theorem update_moves_press_listener:
  assumes el: "d_element (directives w d) = Some old" and ne: "new \<noteq> old"
    and di: "distinct (listeners w (Element old) mousedown)"
  shows "listeners (update d new (handle c x) w) (Element old) mousedown
           = remove1 (DirectivePress d) (listeners w (Element old) mousedown)
       \<and> DirectivePress d \<notin> set (listeners (update d new (handle c x) w) (Element old) mousedown)
       \<and> listeners (update d new (handle c x) w) (Element new) mousedown
           = (if DirectivePress d \<in> set (listeners w (Element new) mousedown)
              then listeners w (Element new) mousedown
              else listeners w (Element new) mousedown @ [DirectivePress d])
       \<and> DirectivePress d \<in> set (listeners (update d new (handle c x) w) (Element new) mousedown)
       \<and> (t \<noteq> Element old \<and> t \<noteq> Element new \<or> ty \<noteq> mousedown \<longrightarrow>
            listeners (update d new (handle c x) w) t ty = listeners w t ty)
       \<and> d_element (directives (update d new (handle c x) w) d) = Some new
       \<and> listeners (update d old (handle c x) w) = listeners w
       \<and> (listeners w (Element old) mousedown = [DirectivePress d] \<longrightarrow>
            step (Press old p) (update d new (handle c x) w) = update d new (handle c x) w)
       \<and> (listeners w (Element new) mousedown = [] \<and> matched w \<longrightarrow>
            sessions (step (Press new p) (update d new (handle c x) w)) = sessions w @ [next_closure w]
            \<and> var_this (closures (step (Press new p) (update d new (handle c x) w)) (next_closure w))
                = Directive d)"
proof -
  let ?w = "update d new (c, x) w"
  have l: "\<And>t ty. listeners ?w t ty =
      (if t = Element old \<and> ty = mousedown then remove1 (DirectivePress d) (listeners w t ty)
       else if t = Element new \<and> ty = mousedown \<and> DirectivePress d \<notin> set (listeners w t ty)
       then listeners w t ty @ [DirectivePress d]
       else listeners w t ty)"
    using ne by (auto simp: update_listeners el addEventListener_listeners removeEventListener_listeners)
  have same: "listeners (update d old (c, x) w) = listeners w"
    by (intro ext) (simp add: update_listeners el)
  have gone: "DirectivePress d \<notin> set (remove1 (DirectivePress d) (listeners w (Element old) mousedown))"
    using di by simp
  have old_press: "step (Press old p) ?w = ?w"
    if "listeners w (Element old) mousedown = [DirectivePress d]"
    using that by (simp add: step.simps dispatchEvent_def l)
  have new_press: "sessions (step (Press new p) ?w) = sessions w @ [next_closure w]
      \<and> var_this (closures (step (Press new p) ?w) (next_closure w)) = Directive d"
    if e: "listeners w (Element new) mousedown = []" and m: "matched w"
  proof -
    have n: "listeners ?w (Element new) mousedown = [DirectivePress d]"
      using ne by (simp add: l e)
    obtain c0 where c0: "d_controller (directives ?w d) = Some c0"
      by (cases "d_controller (directives w d)") (simp_all add: update_directive nullish_def)
    have o: "press_options ?w (DirectivePress d) = Some (c_options (controllers ?w c0))"
      by (simp add: press_options_def c0)
    have t: "press_this (DirectivePress d) = Some (Directive d)" by simp
    have m': "matched ?w" using m by (simp add: update_fields)
    have s: "step (Press new p) ?w = snd (invoke (DirectivePress d) p ?w)"
      by (rule step_Press_single[OF n])
    show ?thesis
      unfolding s
      using press_matched(4)[OF m' o t, of p] press_scope[OF o t, of p]
      by (simp add: Let_def update_fields)
  qed
  show ?thesis
    unfolding handle_def
    using old_press new_press gone ne
    by (simp add: l same update_directive)
qed

theorem update_moves_press_listener_witness:
  "d_element (directives (with_handle returned_options) 0) = Some 8
   \<and> listeners (with_handle returned_options) (Element 8) mousedown = [DirectivePress 0]
   \<and> listeners (with_handle returned_options) (Element 9) mousedown = []
   \<and> matched (with_handle returned_options)
   \<and> listeners (update 0 9 (handle 0 (Some ''second'')) (with_handle returned_options))
        (Element 8) mousedown = []
   \<and> listeners (update 0 9 (handle 0 (Some ''second'')) (with_handle returned_options))
        (Element 9) mousedown = [DirectivePress 0]
   \<and> step (Press 8 (mouse 100 100)) (update 0 9 (handle 0 (Some ''second'')) (with_handle returned_options))
       = update 0 9 (handle 0 (Some ''second'')) (with_handle returned_options)
   \<and> sessions (step (Press 9 (mouse 100 100))
                 (update 0 9 (handle 0 (Some ''second'')) (with_handle returned_options))) = [0]
   \<and> listeners (update 0 8 (handle 0 (Some ''second'')) (with_handle returned_options))
       = listeners (with_handle returned_options)"
proof -
  let ?w = "with_handle returned_options"
  have el: "d_element (directives ?w 0) = Some 8" and ne: "(9::nat) \<noteq> 8"
    and di: "distinct (listeners ?w (Element 8) mousedown)"
    and lo: "listeners ?w (Element 8) mousedown = [DirectivePress 0]"
    and ln: "listeners ?w (Element 9) mousedown = []"
    and m: "matched ?w" and s: "sessions ?w = []" and k: "next_closure ?w = 0"
    by code_simp+
  note r = update_moves_press_listener[OF el ne di, of 0 "Some ''second''" "Element 8" mousedown
      "mouse 100 100"]
  show ?thesis
    using r el lo ln m s k by simp
qed

subsection \<open>The payload\<close>

text \<open>
  C10. The payload a callback receives is read from the instance when the callback
  fires. A session is started in an idle world by a press handled by a directive
  (resp. a controller); after the movements \<open>ms1\<close> the directive is rendered again with
  the payload \<open>x\<close>, at any node and with any controller argument (resp. \<open>x\<close> is assigned to
  the \<^verbatim>\<open>data\<close> slot of the controller); then come the movements \<open>ms2\<close> and a release.
  \<^verbatim>\<open>onStart\<close> and the \<^verbatim>\<open>onMove\<close> calls for \<open>ms1\<close> receive the payload of press time, the
  \<^verbatim>\<open>onMove\<close> calls for \<open>ms2\<close> and the \<^verbatim>\<open>onEnd\<close> call receive \<open>x\<close>.
\<close>

theorem callbacks_receive_current_payload:
  assumes i: "idle w" and n: "listeners w (Element n) mousedown = [l]"
    and o: "press_options w l = Some opts" and t: "press_this l = Some this"
    and c: "config = start_config opts p (this_data w this)"
    and f: "nullish (onMove opts) (optional_chain config res_onMove) = Some f"
    and g: "nullish (onEnd opts) (optional_chain config res_onEnd) = Some g"
    and j: "(this = Directive d \<and> j = Render d n' c' x) \<or> (this = Controller d \<and> j = SetData d x)"
  shows "calls (run (Press n p # map Move ms1 @ j # map Move ms2 @ [Release r]) w)
           = calls w
             @ (case onStart opts of None \<Rightarrow> [] | Some s \<Rightarrow> [OnStart p (this_data w this)])
             @ map (\<lambda>m. OnMove f (clientX m - clientX p + nullish_or (optional_chain config startX) 0)
                             (clientY m - clientY p + nullish_or (optional_chain config startY) 0)
                             (preventDefault m) (this_data w this)) ms1
             @ map (\<lambda>m. OnMove f (clientX m - clientX p + nullish_or (optional_chain config startX) 0)
                             (clientY m - clientY p + nullish_or (optional_chain config startY) 0)
                             (preventDefault m) x) ms2
             @ [OnEnd g (preventDefault r) x]"
proof -
  let ?k = "next_closure w"
  let ?w1 = "step (Press n p) w"
  let ?w2 = "run (map Move ms1) ?w1"
  let ?w3 = "step j ?w2"
  let ?w4 = "run (map Move ms2) ?w3"
  note p = first_press[OF i n o t, of p]
  have w2: "?w2 = ?w1\<lparr>calls := calls ?w1 @ concat (map (\<lambda>m. onMove_call ?w1 m ?k) ms1)\<rparr>"
    by (rule run_Moves_single[OF p(1,2)])
  have m2: "matched ?w2" and s2: "sessions ?w2 = [?k]"
    unfolding w2 using p(1,2) by simp_all
  note q = payload_step[OF j, of ?w2]
  have m3: "matched ?w3" by (rule step_matched[OF m2])
  have s3: "sessions ?w3 = [?k]" by (simp add: q(1) s2)
  have k3: "closures ?w3 ?k = closures ?w1 ?k" unfolding q(2) by (simp add: w2)
  have w4: "?w4 = ?w3\<lparr>calls := calls ?w3 @ concat (map (\<lambda>m. onMove_call ?w3 m ?k) ms2)\<rparr>"
    by (rule run_Moves_single[OF m3 s3])
  have m4: "matched ?w4" and s4: "sessions ?w4 = [?k]"
    unfolding w4 using m3 s3 by simp_all
  have mv1: "\<And>m. onMove_call ?w1 m ?k =
      [OnMove f (clientX m - clientX p + nullish_or (optional_chain config startX) 0)
         (clientY m - clientY p + nullish_or (optional_chain config startY) 0)
         (preventDefault m) (this_data w this)]"
    using f by (simp add: onMove_call_def p(4,5) c)
  have mv3: "\<And>m. onMove_call ?w3 m ?k =
      [OnMove f (clientX m - clientX p + nullish_or (optional_chain config startX) 0)
         (clientY m - clientY p + nullish_or (optional_chain config startY) 0)
         (preventDefault m) x]"
    using f by (simp add: onMove_call_def k3 p(5) c q(4))
  have en: "onEnd_call ?w3 r ?k = [OnEnd g (preventDefault r) x]"
    using g by (simp add: onEnd_call_def k3 p(5) c q(4))
  have r: "run (Press n p # map Move ms1 @ j # map Move ms2 @ [Release r]) w = ended r ?w4"
    using step_Release_single(1)[OF m4 s4, of r] by (simp add: run_append)
  have "calls (ended r ?w4) = calls ?w4 @ onEnd_call ?w4 r ?k"
    by (rule step_Release_single(2)[OF m4 s4])
  also have "\<dots> = calls ?w3 @ concat (map (\<lambda>m. onMove_call ?w3 m ?k) ms2) @ onEnd_call ?w3 r ?k"
    unfolding w4 by simp
  also have "calls ?w3 = calls ?w1 @ concat (map (\<lambda>m. onMove_call ?w1 m ?k) ms1)"
    unfolding q(3) by (simp add: w2)
  finally show ?thesis
    unfolding r by (simp add: p(3) mv1 mv3 en concat_map_singleton)
qed

theorem callbacks_receive_current_payload_witness:
  "idle (with_handle returned_options)
   \<and> listeners (with_handle returned_options) (Element 8) mousedown = [DirectivePress 0]
   \<and> this_data (with_handle returned_options) (Directive 0) = Some ''first''
   \<and> calls (run [Press 8 (mouse 100 100), Move (mouse 110 110), Render 0 8 0 (Some ''second''),
                  Move (mouse 120 130), Release (mouse 125 135)] (with_handle returned_options))
       = [OnStart (mouse 100 100) (Some ''first''),
          OnMove 2 60 60 (prevented 110 110) (Some ''first''),
          OnMove 2 70 80 (prevented 120 130) (Some ''second''),
          OnEnd 4 (prevented 125 135) (Some ''second'')]"
proof -
  let ?w = "with_handle returned_options"
  let ?opts = "returned_options\<lparr>target := None\<rparr>"
  let ?r = "\<lparr>startX = Some 50, startY = Some 50, res_onMove = Some 2, res_onEnd = Some 4\<rparr>"
  have i: "idle ?w" and n: "listeners ?w (Element 8) mousedown = [DirectivePress 0]"
    and d: "this_data ?w (Directive 0) = Some ''first''" "calls ?w = []"
    by code_simp+
  have o: "press_options ?w (DirectivePress 0) = Some ?opts"
    by (simp add: press_options_def example_defs handler_defs)
  have t: "press_this (DirectivePress 0) = Some (Directive 0)" by simp
  have c: "Some ?r = start_config ?opts (mouse 100 100) (this_data ?w (Directive 0))"
    by (simp add: start_config_def returned_options_def start_at_50_def)
  have f: "nullish (onMove ?opts) (optional_chain (Some ?r) res_onMove) = Some 2"
    and g: "nullish (onEnd ?opts) (optional_chain (Some ?r) res_onEnd) = Some 4"
    and s: "onStart ?opts = Some start_at_50"
    by (simp_all add: nullish_def optional_chain_def returned_options_def)
  have j: "(Directive 0 = Directive 0 \<and> Render 0 8 0 (Some ''second'') = Render 0 8 0 (Some ''second''))
           \<or> (Directive 0 = Controller 0 \<and> Render 0 8 0 (Some ''second'') = SetData 0 (Some ''second''))"
    by simp
  note r = callbacks_receive_current_payload[OF i n o t c f g j,
      of "[mouse 110 110]" "[mouse 120 130]" "mouse 125 135"]
  show ?thesis
    using r i n d s
    by (simp add: mouse_def prevented_def preventDefault_def nullish_or_def optional_chain_def)
qed

subsection \<open>The constructor of the directive\<close>

text \<open>
  C9. Constructing the directive at an attachment point that is not an element binding
  (an attribute, a child or text position, a property, a boolean attribute, an event)
  returns the error at once, with the message of line 105; constructing it at an
  element binding returns a directive and no error.
\<close>

theorem DraggableDirective_new_element_only:
  "DraggableDirective_new \<lparr>part_type = ATTRIBUTE\<rparr> = Inl (Error ''handle() must be used in an element binding'')
   \<and> DraggableDirective_new \<lparr>part_type = CHILD\<rparr> = Inl (Error ''handle() must be used in an element binding'')
   \<and> DraggableDirective_new \<lparr>part_type = PROPERTY\<rparr> = Inl (Error ''handle() must be used in an element binding'')
   \<and> DraggableDirective_new \<lparr>part_type = BOOLEAN_ATTRIBUTE\<rparr> = Inl (Error ''handle() must be used in an element binding'')
   \<and> DraggableDirective_new \<lparr>part_type = EVENT\<rparr> = Inl (Error ''handle() must be used in an element binding'')
   \<and> DraggableDirective_new \<lparr>part_type = ELEMENT\<rparr>
       = Inr \<lparr>d_controller = None, d_element = None, d_data = None\<rparr>
   \<and> isl (DraggableDirective_new partInfo) = (part_type partInfo \<noteq> ELEMENT)"
  by (simp add: DraggableDirective_new_def)

end
